theory Spec2Isabelle
  imports Main "HOL-Library.Word"
begin

chapter \<open>Biotite: chain utilities, the connection-table codec, and optimal alignment\<close>

text \<open>
  A shallow embedding of three parts of the repository:
  \<^item> \<^verbatim>\<open>src/biotite/structure/chains.py\<close>: \<open>get_chain_starts\<close>, \<open>get_chain_count\<close>,
    \<open>chain_iter\<close>;
  \<^item> \<^verbatim>\<open>src/biotite/structure/io/ctab.py\<close>: \<open>read_structure_from_ctab\<close>,
    \<open>write_structure_to_ctab\<close>, \<open>_get_counts\<close> and the two mapping tables;
  \<^item> the alignment engine, which is only called (not defined) by
    \<^verbatim>\<open>doc/examples/scripts/sequence/genome_search.py\<close>.

  Python exceptions are values of the type \<open>error\<close>; a function that may raise returns
  \<open>error + 'a\<close> with \<open>Inl\<close> for the exception. Warnings issued through
  \<^verbatim>\<open>warnings.warn\<close> are collected, in order, in a list returned next to the result.
  Strings are lists of 8-bit characters; every string the codec handles is taken to
  consist of such characters.
\<close>

section \<open>Data model\<close>

subsection \<open>Python sequences\<close>

text \<open>\<^verbatim>\<open>xs[a:b]\<close> for indices \<open>0 \<le> a\<close>, \<open>0 \<le> b\<close>; a slice never raises.\<close>

definition slice_between :: "nat \<Rightarrow> nat \<Rightarrow> 'a list \<Rightarrow> 'a list" where
  "slice_between a b xs = drop a (take b xs)"

text \<open>
  \<^verbatim>\<open>xs[a:b]\<close> for arbitrary integers: a negative index counts from the end, and both
  ends are clipped to the sequence.
\<close>

definition py_slice :: "int \<Rightarrow> int \<Rightarrow> 'a list \<Rightarrow> 'a list" where
  "py_slice a b xs =
     (let n = int (length xs);
          clip = (\<lambda>k. if k < 0 then max 0 (k + n) else min k n)
      in drop (nat (clip a)) (take (nat (clip b)) xs))"

text \<open>\<^verbatim>\<open>np.where(cond)[0]\<close>: the indices at which a boolean array is true.\<close>

definition np_where :: "bool list \<Rightarrow> nat list" where
  "np_where cond = filter (\<lambda>i. cond ! i) [0..<length cond]"

datatype error = IndexError | ValueError | TypeError | BadStructureError

text \<open>\<^verbatim>\<open>xs[i]\<close> for \<open>0 \<le> i\<close>: raises \<open>IndexError\<close> out of range.\<close>

definition get_item :: "'a list \<Rightarrow> nat \<Rightarrow> error + 'a" where
  "get_item xs i = (if i < length xs then Inr (xs ! i) else Inl IndexError)"

text \<open>
  A list comprehension whose element expression may raise: the first exception, in
  iteration order, is the result.
\<close>

fun collect :: "(error + 'a) list \<Rightarrow> error + 'a list" where
  "collect [] = Inr []"
| "collect (r # rs) =
     (case r of
        Inl e \<Rightarrow> Inl e
      | Inr x \<Rightarrow> (case collect rs of Inl e \<Rightarrow> Inl e | Inr xs \<Rightarrow> Inr (x # xs)))"

text \<open>
  A dictionary built by inserting the items in order, a later item replacing an earlier
  one with the same key; and \<^verbatim>\<open>d.get(k, dflt)\<close>.
\<close>

definition dict_of :: "('k \<times> 'v) list \<Rightarrow> ('k \<rightharpoonup> 'v)" where
  "dict_of items = foldl (\<lambda>d (key, val). d(key \<mapsto> val)) Map.empty items"

definition dict_get :: "('k \<rightharpoonup> 'v) \<Rightarrow> 'k \<Rightarrow> 'v \<Rightarrow> 'v" where
  "dict_get d k dflt = (case d k of None \<Rightarrow> dflt | Some v \<Rightarrow> v)"

subsection \<open>Python strings\<close>

text \<open>
  \<^verbatim>\<open>str.isspace\<close> on the characters below 256: tab to carriage return, the four
  separators 0x1C to 0x1F, space, 0x85 and 0xA0.
\<close>

definition is_space :: "char \<Rightarrow> bool" where
  "is_space c = (c \<in> set [CHR '' '', CHR 0x09, CHR 0x0A, CHR 0x0B, CHR 0x0C, CHR 0x0D,
                           CHR 0x1C, CHR 0x1D, CHR 0x1E, CHR 0x1F, CHR 0x85, CHR 0xA0])"

definition strip :: "string \<Rightarrow> string" where
  "strip s = rev (dropWhile is_space (rev (dropWhile is_space s)))"

definition rstrip :: "string \<Rightarrow> string" where
  "rstrip s = rev (dropWhile is_space (rev s))"

text \<open>\<^verbatim>\<open>s.split()\<close>: the maximal runs of non-whitespace characters, in order.\<close>

fun split_from :: "string \<Rightarrow> string \<Rightarrow> string list" where
  "split_from word [] = (if word = [] then [] else [word])"
| "split_from word (c # cs) =
     (if is_space c then (if word = [] then split_from [] cs else word # split_from [] cs)
      else split_from (word @ [c]) cs)"

definition str_split :: "string \<Rightarrow> string list" where
  "str_split s = split_from [] s"

text \<open>
  \<^verbatim>\<open>s.upper()\<close> on 8-bit characters: the ASCII letters and the small letters 0xE0 to
  0xFE (without the division sign 0xF7) go to their capitals, the sharp s 0xDF becomes
  two capital S, every other character is kept. The capitals of 0xB5 and 0xFF are not
  8-bit characters; strings are taken not to contain these two.
\<close>

definition latin1_lower :: string where
  "latin1_lower =
     ''abcdefghijklmnopqrstuvwxyz'' @
     [CHR 0xE0, CHR 0xE1, CHR 0xE2, CHR 0xE3, CHR 0xE4, CHR 0xE5, CHR 0xE6,
      CHR 0xE7, CHR 0xE8, CHR 0xE9, CHR 0xEA, CHR 0xEB, CHR 0xEC, CHR 0xED,
      CHR 0xEE, CHR 0xEF, CHR 0xF0, CHR 0xF1, CHR 0xF2, CHR 0xF3, CHR 0xF4,
      CHR 0xF5, CHR 0xF6, CHR 0xF8, CHR 0xF9, CHR 0xFA, CHR 0xFB, CHR 0xFC,
      CHR 0xFD, CHR 0xFE]"

definition latin1_upper :: string where
  "latin1_upper =
     ''ABCDEFGHIJKLMNOPQRSTUVWXYZ'' @
     [CHR 0xC0, CHR 0xC1, CHR 0xC2, CHR 0xC3, CHR 0xC4, CHR 0xC5, CHR 0xC6,
      CHR 0xC7, CHR 0xC8, CHR 0xC9, CHR 0xCA, CHR 0xCB, CHR 0xCC, CHR 0xCD,
      CHR 0xCE, CHR 0xCF, CHR 0xD0, CHR 0xD1, CHR 0xD2, CHR 0xD3, CHR 0xD4,
      CHR 0xD5, CHR 0xD6, CHR 0xD8, CHR 0xD9, CHR 0xDA, CHR 0xDB, CHR 0xDC,
      CHR 0xDD, CHR 0xDE]"

definition upper_char :: "char \<Rightarrow> string" where
  "upper_char c =
     (if c = CHR 0xDF then ''SS''
      else case map_of (zip latin1_lower latin1_upper) c of
             Some u \<Rightarrow> [u]
           | None \<Rightarrow> [c])"

definition upper :: "string \<Rightarrow> string" where
  "upper s = concat (map upper_char s)"

text \<open>The format specification \<^verbatim>\<open>>w\<close>: right-justify in at least \<open>w\<close> columns.\<close>

definition rjust :: "nat \<Rightarrow> string \<Rightarrow> string" where
  "rjust w s = replicate (w - length s) CHR '' '' @ s"

definition digit_char :: "nat \<Rightarrow> char" where
  "digit_char d = ''0123456789'' ! d"

fun digits :: "nat \<Rightarrow> string" where
  "digits n = (if n < 10 then [digit_char n] else digits (n div 10) @ [digit_char (n mod 10)])"

declare digits.simps [simp del]

text \<open>\<^verbatim>\<open>str(k)\<close> and the format specification \<^verbatim>\<open>>wd\<close> for an integer.\<close>

definition str_int :: "int \<Rightarrow> string" where
  "str_int k = (if k < 0 then CHR ''-'' # digits (nat (- k)) else digits (nat k))"

definition format_d :: "nat \<Rightarrow> int \<Rightarrow> string" where
  "format_d w k = rjust w (str_int k)"

definition is_digit :: "char \<Rightarrow> bool" where
  "is_digit c = (c \<in> set ''0123456789'')"

definition digit_val :: "char \<Rightarrow> nat" where
  "digit_val c =
     (case map_of (zip ''0123456789'' [0, 1, 2, 3, 4, 5, 6, 7, 8, 9]) c of
        Some d \<Rightarrow> d
      | None \<Rightarrow> 0)"

definition digits_val :: "string \<Rightarrow> nat" where
  "digits_val ds = foldl (\<lambda>acc c. 10 * acc + digit_val c) 0 ds"

text \<open>
  The digit part of an integer literal accepted by \<^verbatim>\<open>int(s)\<close>: decimal digits, where
  single underscores may separate digits.
\<close>

fun valid_digits :: "string \<Rightarrow> bool" where
  "valid_digits [] = False"
| "valid_digits [c] = is_digit c"
| "valid_digits (c # d # cs) =
     (is_digit c \<and> (if d = CHR ''_'' then valid_digits cs else valid_digits (d # cs)))"

text \<open>
  \<^verbatim>\<open>int(s)\<close>: surrounding whitespace is dropped, one sign is allowed; \<open>None\<close> stands
  for the \<open>ValueError\<close> that any other string raises. The whitespace that \<^verbatim>\<open>int\<close>
  drops is narrower than that of \<^verbatim>\<open>str.strip\<close>: the four separators 0x1C to 0x1F
  are not part of it.
\<close>

definition is_int_space :: "char \<Rightarrow> bool" where
  "is_int_space c = (c \<in> set [CHR '' '', CHR 0x09, CHR 0x0A, CHR 0x0B, CHR 0x0C, CHR 0x0D,
                               CHR 0x85, CHR 0xA0])"

definition int_strip :: "string \<Rightarrow> string" where
  "int_strip s = rev (dropWhile is_int_space (rev (dropWhile is_int_space s)))"

definition py_int :: "string \<Rightarrow> int option" where
  "py_int s =
     (let t = int_strip s;
          (neg, body) = (case t of [] \<Rightarrow> (False, [])
                         | c # r \<Rightarrow> if c = CHR ''-'' then (True, r)
                                   else if c = CHR ''+'' then (False, r) else (False, t))
      in if valid_digits body
         then let v = int (digits_val (filter (\<lambda>c. c \<noteq> CHR ''_'') body))
              in Some (if neg then - v else v)
         else None)"

section \<open>Chain utilities (\<^verbatim>\<open>chains.py\<close>)\<close>

text \<open>
  The chain functions read one annotation of an atom array, \<open>chain_id\<close>, its length,
  and slice it along the atom axis. An atom array is modelled here as the list of its
  atoms, each carrying its chain ID (the record can be extended by any further
  annotation); slicing the array is slicing the list.
\<close>

record atom =
  chain_id :: string

definition get_chain_starts :: "'m atom_scheme list \<Rightarrow> nat list" where
  "get_chain_starts array =
     (let chain_ids = map chain_id array;
          chain_changes = map (\<lambda>i. i + 1)
             (np_where (map2 (\<lambda>a b. a \<noteq> b) (butlast chain_ids) (tl chain_ids)));
          chain_starts = [0] @ chain_changes
      in chain_starts)"

definition get_chain_count :: "'m atom_scheme list \<Rightarrow> nat" where
  "get_chain_count array = length (get_chain_starts array)"

text \<open>The generator is modelled by the list of the values it yields, in order.\<close>

definition chain_iter :: "'m atom_scheme list \<Rightarrow> 'm atom_scheme list list" where
  "chain_iter array =
     (let starts = get_chain_starts array @ [length array]
      in map (\<lambda>i. slice_between (starts ! i) (starts ! (i + 1)) array)
             [0..<length starts - 1])"

subsection \<open>Auxiliary functions for the proofs\<close>

text \<open>The positions at which an array differs from its predecessor, by recursion.\<close>

fun starts_rec :: "'a list \<Rightarrow> nat list" where
  "starts_rec (x # y # xs) =
     (if x \<noteq> y then map Suc (0 # starts_rec (y # xs)) else map Suc (starts_rec (y # xs)))"
| "starts_rec _ = []"

definition changes :: "'a list \<Rightarrow> nat list" where
  "changes ids =
     map (\<lambda>i. i + 1) (np_where (map2 (\<lambda>a b. a \<noteq> b) (butlast ids) (tl ids)))"

fun slices :: "nat list \<Rightarrow> 'a list \<Rightarrow> 'a list list" where
  "slices (a # b # r) xs = slice_between a b xs # slices (b # r) xs"
| "slices _ xs = []"

text \<open>Maximal runs of neighbours with equal key; the empty list has one empty run.\<close>

fun groups :: "('a \<Rightarrow> 'k) \<Rightarrow> 'a list \<Rightarrow> 'a list list" where
  "groups f (x # y # xs) =
     (if f x \<noteq> f y then [x] # groups f (y # xs)
      else (x # hd (groups f (y # xs))) # tl (groups f (y # xs)))"
| "groups f [x] = [[x]]"
| "groups f [] = [[]]"

definition ex_chain_array :: "atom list" where
  "ex_chain_array =
     [\<lparr>chain_id = ''A''\<rparr>, \<lparr>chain_id = ''A''\<rparr>, \<lparr>chain_id = ''B''\<rparr>, \<lparr>chain_id = ''A''\<rparr>]"

section \<open>Connection tables (\<^verbatim>\<open>ctab.py\<close>)\<close>

subsection \<open>Atom arrays and bond lists\<close>

text \<open>
  Modelled from the spec: the classes \<open>AtomArray\<close>, \<open>AtomArrayStack\<close>, \<open>BondList\<close> and the
  enumeration \<open>BondType\<close> are imported by \<^verbatim>\<open>ctab.py\<close> but are not among the sources.
  The spec describes an atom record as parallel arrays of equal length (coordinates,
  element symbols, formal charges) and a bond graph as a set of triples (atom index,
  atom index, bond order) whose indices refer to atoms of the record. The codec names
  the bond types \<open>ANY\<close>, \<open>SINGLE\<close>, \<open>DOUBLE\<close> and \<open>TRIPLE\<close>; \<open>OTHER k\<close> stands for any
  further member of the enumeration. The \<open>charge\<close> annotation is optional, and so is
  the bond list (\<^verbatim>\<open>atoms.bonds is None\<close>). The bond array of the reader has
  \<^verbatim>\<open>dtype=np.uint32\<close>, so atom indices of a bond are 32-bit words. The field \<open>bonds\<close>
  holds the rows that \<^verbatim>\<open>as_array()\<close> returns.
\<close>

datatype BondType = ANY | SINGLE | DOUBLE | TRIPLE | OTHER nat

type_synonym bond = "32 word \<times> 32 word \<times> BondType"

record 'c AtomArray =
  coord :: "('c \<times> 'c \<times> 'c) list"
  element :: "string list"
  charge :: "int list option"
  bonds :: "bond list option"

datatype 'c atoms_arg = IsAtomArray "'c AtomArray" | IsAtomArrayStack "'c AtomArray list"

definition array_length :: "'c AtomArray \<Rightarrow> nat" where
  "array_length atoms = length (coord atoms)"

text \<open>The class invariant: every annotation array has the length of the atom array.\<close>

definition valid_AtomArray :: "'c AtomArray \<Rightarrow> bool" where
  "valid_AtomArray atoms =
     (length (element atoms) = length (coord atoms) \<and>
      (case charge atoms of None \<Rightarrow> True | Some cs \<Rightarrow> length cs = length (coord atoms)))"

text \<open>
  Modelled from the spec: the constructor \<open>BondList(atom_count, bond_array)\<close> is not
  among the sources. A bond graph is a set of bonds between atoms of the record, so the
  constructor, as the library has it, raises \<open>IndexError\<close> when a non-empty array holds
  an index that is not below the atom count, puts the lower index of each bond first,
  and keeps of several rows with the same pair of indices the first one.
\<close>

definition sort_bond :: "bond \<Rightarrow> bond" where
  "sort_bond b = (case b of (i, j, bond_type) \<Rightarrow> if j < i then (j, i, bond_type) else b)"

fun remove_redundant_bonds :: "(32 word \<times> 32 word) list \<Rightarrow> bond list \<Rightarrow> bond list" where
  "remove_redundant_bonds seen [] = []"
| "remove_redundant_bonds seen (b # bs) =
     (case b of (i, j, bond_type) \<Rightarrow>
        if (i, j) \<in> set seen then remove_redundant_bonds seen bs
        else b # remove_redundant_bonds ((i, j) # seen) bs)"

definition BondList :: "nat \<Rightarrow> bond list \<Rightarrow> error + bond list" where
  "BondList atom_count bond_array =
     (if list_ex (\<lambda>(i, j, bond_type). atom_count \<le> unat i \<or> atom_count \<le> unat j) bond_array
      then Inl IndexError
      else Inr (remove_redundant_bonds [] (map sort_bond bond_array)))"

text \<open>The invariant that the constructor establishes.\<close>

definition valid_BondList :: "nat \<Rightarrow> bond list \<Rightarrow> bool" where
  "valid_BondList atom_count bond_list =
     (list_all (\<lambda>(i, j, bond_type). unat i < atom_count \<and> unat j < atom_count \<and> i \<le> j)
               bond_list
      \<and> distinct (map (\<lambda>(i, j, bond_type). (i, j)) bond_list))"

text \<open>
  What the codec uses from outside the repository's sources is a parameter: Python's
  \<^verbatim>\<open>float(s)\<close> followed by the store into the coordinate array (\<open>None\<close> for a
  \<open>ValueError\<close>) and the format specification \<^verbatim>\<open>>10.5f\<close>, over a type \<open>'c\<close> of
  coordinate values as the array holds them; the coordinate and the element
  that a fresh \<open>AtomArray\<close> holds; and the bond type whose integer value is 0, which
  \<^verbatim>\<open>np.zeros\<close> puts into a fresh bond array.
\<close>

record 'c library =
  float_of_str :: "string \<Rightarrow> 'c option"
  format_10_5f :: "'c \<Rightarrow> string"
  empty_coord :: 'c
  empty_element :: string
  zero_bond_type :: BondType

text \<open>\<^verbatim>\<open>AtomArray(n)\<close>: no charge annotation and no bond list yet.\<close>

definition new_AtomArray :: "'c library \<Rightarrow> nat \<Rightarrow> 'c AtomArray" where
  "new_AtomArray L n =
     \<lparr>coord = replicate n (empty_coord L, empty_coord L, empty_coord L),
      element = replicate n (empty_element L), charge = None, bonds = None\<rparr>"

subsection \<open>The mapping tables\<close>

definition BOND_TYPE_MAPPING :: "(int \<times> BondType) list" where
  "BOND_TYPE_MAPPING =
     [(1, SINGLE), (2, DOUBLE), (3, TRIPLE), (6, SINGLE), (7, DOUBLE), (8, ANY)]"

definition CHARGE_MAPPING :: "(int \<times> int) list" where
  "CHARGE_MAPPING = [(0, 0), (1, 3), (2, 2), (3, 1), (5, -1), (6, -2), (7, -3)]"

text \<open>
  \<^verbatim>\<open>{val: key for key, val in MAPPING.items()}\<close>: where two keys share a value, the
  later key stays.
\<close>

definition BOND_TYPE_MAPPING_REV :: "BondType \<rightharpoonup> int" where
  "BOND_TYPE_MAPPING_REV = dict_of (map (\<lambda>(key, val). (val, key)) BOND_TYPE_MAPPING)"

definition CHARGE_MAPPING_REV :: "int \<rightharpoonup> int" where
  "CHARGE_MAPPING_REV = dict_of (map (\<lambda>(key, val). (val, key)) CHARGE_MAPPING)"

subsection \<open>Reading\<close>

datatype warning = ChargeWarning int | BondWarning int

text \<open>
  \<open>_get_counts\<close>: the first two whitespace-separated elements of the counts line, as
  integers. Indexing a missing element raises \<open>IndexError\<close>.
\<close>

definition get_counts :: "string \<Rightarrow> error + (int \<times> int)" where
  "get_counts counts_line =
     (let elements = str_split counts_line
      in case elements of
           [] \<Rightarrow> Inl IndexError
         | e0 # rest \<Rightarrow>
             (case py_int e0 of
                None \<Rightarrow> Inl ValueError
              | Some n0 \<Rightarrow>
                  (case rest of
                     [] \<Rightarrow> Inl IndexError
                   | e1 # _ \<Rightarrow>
                       (case py_int e1 of
                          None \<Rightarrow> Inl ValueError
                        | Some n1 \<Rightarrow> Inr (n0, n1)))))"

text \<open>
  The body of the loop over the atom lines, up to the assignments: the three
  coordinates, the element, and the charge with the warning for a charge code that
  \<open>CHARGE_MAPPING\<close> does not have. The element array holds strings of at most three
  characters, so a longer upper-case form is cut.
\<close>

definition read_atom_line ::
  "'c library \<Rightarrow> string \<Rightarrow> error + (('c \<times> 'c \<times> 'c) \<times> string \<times> int \<times> warning list)" where
  "read_atom_line L line =
     (case float_of_str L (slice_between 0 10 line) of None \<Rightarrow> Inl ValueError | Some x \<Rightarrow>
      case float_of_str L (slice_between 10 20 line) of None \<Rightarrow> Inl ValueError | Some y \<Rightarrow>
      case float_of_str L (slice_between 20 30 line) of None \<Rightarrow> Inl ValueError | Some z \<Rightarrow>
      let el = take 3 (upper (strip (slice_between 31 34 line))) in
      case py_int (slice_between 36 39 line) of None \<Rightarrow> Inl ValueError | Some code \<Rightarrow>
      (case dict_of CHARGE_MAPPING code of
         None \<Rightarrow> Inr ((x, y, z), el, 0, [ChargeWarning code])
       | Some c \<Rightarrow> Inr ((x, y, z), el, c, [])))"

text \<open>
  The loop over \<^verbatim>\<open>enumerate(atom_lines)\<close>: the state is the atom array and the warnings
  issued so far; entry \<open>i\<close> of each array is overwritten.
\<close>

fun atom_loop ::
  "'c library \<Rightarrow> nat \<Rightarrow> string list \<Rightarrow> 'c AtomArray \<times> warning list
     \<Rightarrow> error + ('c AtomArray \<times> warning list)" where
  "atom_loop L i [] st = Inr st"
| "atom_loop L i (line # rest) (atoms, ws) =
     (case read_atom_line L line of
        Inl e \<Rightarrow> Inl e
      | Inr (xyz, el, c, w) \<Rightarrow>
          (case charge atoms of
             None \<Rightarrow> Inl IndexError
           | Some cs \<Rightarrow>
               if i < length (coord atoms) \<and> i < length (element atoms) \<and> i < length cs
               then atom_loop L (i + 1) rest
                      (atoms\<lparr>coord := (coord atoms)[i := xyz],
                             element := (element atoms)[i := el],
                             charge := Some (cs[i := c])\<rparr>, ws @ w)
               else Inl IndexError))"

text \<open>
  The body of the loop over the bond lines. The bond type is looked up with the default
  \<open>ANY\<close>, and the warning is issued when the result equals \<open>ANY\<close>. An index is stored
  into the unsigned 32-bit array, where a value out of range wraps around.
\<close>

definition read_bond_line :: "string \<Rightarrow> error + (bond \<times> warning list)" where
  "read_bond_line line =
     (case py_int (slice_between 6 9 line) of None \<Rightarrow> Inl ValueError | Some code \<Rightarrow>
      let bond_type = dict_get (dict_of BOND_TYPE_MAPPING) code ANY;
          w = (if bond_type = ANY then [BondWarning code] else []) in
      case py_int (slice_between 0 3 line) of None \<Rightarrow> Inl ValueError | Some a \<Rightarrow>
      case py_int (slice_between 3 6 line) of None \<Rightarrow> Inl ValueError | Some b \<Rightarrow>
      Inr ((word_of_int (a - 1), word_of_int (b - 1), bond_type), w))"

fun bond_loop ::
  "nat \<Rightarrow> string list \<Rightarrow> bond list \<times> warning list \<Rightarrow> error + (bond list \<times> warning list)" where
  "bond_loop i [] st = Inr st"
| "bond_loop i (line # rest) (bond_array, ws) =
     (case read_bond_line line of
        Inl e \<Rightarrow> Inl e
      | Inr (row, w) \<Rightarrow>
          if i < length bond_array
          then bond_loop (i + 1) rest (bond_array[i := row], ws @ w)
          else Inl IndexError)"

text \<open>
  \<open>read_structure_from_ctab\<close>. \<^verbatim>\<open>ctab_lines[0]\<close> raises \<open>IndexError\<close> on an empty
  list. A negative count makes the allocation of the arrays raise \<open>ValueError\<close>:
  for the atoms before the first loop, for the bonds between the two loops. The last
  step hands the bond array to the \<open>BondList\<close> constructor.
\<close>

definition read_structure_from_ctab ::
  "'c library \<Rightarrow> string list \<Rightarrow> error + ('c AtomArray \<times> warning list)" where
  "read_structure_from_ctab L ctab_lines =
     (case ctab_lines of
        [] \<Rightarrow> Inl IndexError
      | counts_line # _ \<Rightarrow>
      (case get_counts counts_line of
        Inl e \<Rightarrow> Inl e
      | Inr (n_atoms, n_bonds) \<Rightarrow>
          let atom_lines = py_slice 1 (1 + n_atoms) ctab_lines;
              bond_lines = py_slice (1 + n_atoms) (1 + n_atoms + n_bonds) ctab_lines
          in if n_atoms < 0 then Inl ValueError
             else
               let atoms = (new_AtomArray L (nat n_atoms))
                              \<lparr>charge := Some (replicate (nat n_atoms) 0)\<rparr>
               in case atom_loop L 0 atom_lines (atoms, []) of
                    Inl e \<Rightarrow> Inl e
                  | Inr (atoms, ws) \<Rightarrow>
                      if n_bonds < 0 then Inl ValueError
                      else
                        let bond_array = replicate (nat n_bonds) (0, 0, zero_bond_type L)
                        in case bond_loop 0 bond_lines (bond_array, ws) of
                             Inl e \<Rightarrow> Inl e
                           | Inr (bond_array, ws) \<Rightarrow>
                               (case BondList (nat n_atoms) bond_array of
                                  Inl e \<Rightarrow> Inl e
                                | Inr bond_list \<Rightarrow>
                                    Inr (atoms\<lparr>bonds := Some bond_list\<rparr>, ws))))"

text \<open>
  When the reader returns. The conditions are: a counts line with two integers, neither
  negative; in every atom line three coordinate fields and an integer in columns 36 to
  39; in every bond line three integers; and a bond array that the \<open>BondList\<close>
  constructor accepts. No condition looks at the value of a charge code.
\<close>

definition atom_fields_convert :: "'c library \<Rightarrow> string \<Rightarrow> bool" where
  "atom_fields_convert L line =
     (float_of_str L (slice_between 0 10 line) \<noteq> None
      \<and> float_of_str L (slice_between 10 20 line) \<noteq> None
      \<and> float_of_str L (slice_between 20 30 line) \<noteq> None
      \<and> py_int (slice_between 36 39 line) \<noteq> None)"

definition readable :: "'c library \<Rightarrow> string list \<Rightarrow> bool" where
  "readable L ctab_lines =
     (case ctab_lines of
        [] \<Rightarrow> False
      | counts_line # _ \<Rightarrow>
          (case get_counts counts_line of
             Inl e \<Rightarrow> False
           | Inr (n_atoms, n_bonds) \<Rightarrow>
               0 \<le> n_atoms \<and> 0 \<le> n_bonds
               \<and> list_all (atom_fields_convert L) (py_slice 1 (1 + n_atoms) ctab_lines)
               \<and> (case collect (map read_bond_line
                            (py_slice (1 + n_atoms) (1 + n_atoms + n_bonds) ctab_lines)) of
                     Inl e \<Rightarrow> False
                   | Inr brows \<Rightarrow>
                       (case BondList (nat n_atoms)
                               (map fst brows @ replicate (nat n_bonds - length brows)
                                                  (0, 0, zero_bond_type L)) of
                          Inl e \<Rightarrow> False
                        | Inr bond_list \<Rightarrow> True))))"

subsection \<open>Writing\<close>

text \<open>One element of the comprehension that builds the atom lines.\<close>

definition write_atom_line ::
  "'c library \<Rightarrow> 'c AtomArray \<Rightarrow> int list \<Rightarrow> nat \<Rightarrow> error + string" where
  "write_atom_line L atoms charge_arr i =
     (case get_item (coord atoms) i of Inl e \<Rightarrow> Inl e | Inr (x, y, z) \<Rightarrow>
      case get_item (element atoms) i of Inl e \<Rightarrow> Inl e | Inr el \<Rightarrow>
      case get_item charge_arr i of Inl e \<Rightarrow> Inl e | Inr c \<Rightarrow>
      Inr (format_10_5f L x @ format_10_5f L y @ format_10_5f L z
           @ '' '' @ rjust 3 el
           @ ''  '' @ format_d 3 (dict_get CHARGE_MAPPING_REV c 0)
           @ concat (replicate 10 (format_d 3 0))))"

text \<open>
  One element of the comprehension that builds the bond lines. The indices \<open>i\<close>, \<open>j\<close>
  come out of the unsigned array; \<open>i + 1\<close> is computed without wrap-around.
\<close>

definition write_bond_line :: "bond \<Rightarrow> string" where
  "write_bond_line b =
     (case b of (i, j, bond_type) \<Rightarrow>
        format_d 3 (uint i + 1) @ format_d 3 (uint j + 1)
        @ format_d 3 (dict_get BOND_TYPE_MAPPING_REV bond_type 0)
        @ concat (replicate 4 (format_d 3 0)))"

text \<open>
  \<open>write_structure_to_ctab\<close>: \<open>TypeError\<close> for a stack, \<open>BadStructureError\<close> for an
  array without bond list. The function has no call of \<^verbatim>\<open>warnings.warn\<close>, so its
  result carries no warning list.
\<close>

definition write_structure_to_ctab :: "'c library \<Rightarrow> 'c atoms_arg \<Rightarrow> error + string list" where
  "write_structure_to_ctab L arg =
     (case arg of
        IsAtomArrayStack _ \<Rightarrow> Inl TypeError
      | IsAtomArray atoms \<Rightarrow>
          (case bonds atoms of
             None \<Rightarrow> Inl BadStructureError
           | Some bond_list \<Rightarrow>
               let charge_arr = (case charge atoms of
                                   Some cs \<Rightarrow> cs
                                 | None \<Rightarrow> replicate (array_length atoms) 0)
               in case collect (map (write_atom_line L atoms charge_arr)
                                    [0..<array_length atoms]) of
                    Inl e \<Rightarrow> Inl e
                  | Inr atom_lines \<Rightarrow>
                      let bond_lines = map write_bond_line bond_list;
                          counts_line = format_d 3 (int (length atom_lines))
                                        @ format_d 3 (int (length bond_lines)) @ ''   ''
                                        @ ''  0  0  0  0  0  1 V2000''
                      in Inr ([counts_line] @ atom_lines @ bond_lines @ [''M  END''])))"

subsection \<open>A decimal stand-in for the float operations\<close>

text \<open>
  To run the codec on concrete lines, the library parameter is instantiated with
  fixed-point numbers: a coordinate is an integer number of units of \<open>10\<^sup>-\<^sup>5\<close>. It
  parses a decimal literal with exactly five fractional digits and prints it back in the
  layout of \<^verbatim>\<open>>10.5f\<close>. On the literals used below (such as \<open>0.00000\<close>, \<open>1.50000\<close>,
  \<open>-0.25000\<close>) Python's \<^verbatim>\<open>float\<close> and \<^verbatim>\<open>format\<close> give the same strings. The
  coordinate of a fresh array, not-a-number in the library, is 0 here.
\<close>

definition dec5_format :: "int \<Rightarrow> string" where
  "dec5_format k =
     rjust 10 ((if k < 0 then ''-'' else []) @ digits (nat \<bar>k\<bar> div 100000) @ ''.''
               @ replicate (5 - length (digits (nat \<bar>k\<bar> mod 100000))) CHR ''0''
               @ digits (nat \<bar>k\<bar> mod 100000))"

definition dec5_parse :: "string \<Rightarrow> int option" where
  "dec5_parse s =
     (let t = strip s;
          (neg, body) = (case t of [] \<Rightarrow> (False, [])
                         | c # r \<Rightarrow> if c = CHR ''-'' then (True, r) else (False, t));
          ip = takeWhile is_digit body;
          rest = dropWhile is_digit body
      in case rest of
           [] \<Rightarrow> None
         | d # fp \<Rightarrow>
             if d = CHR ''.'' \<and> ip \<noteq> [] \<and> length fp = 5 \<and> list_all is_digit fp
             then let v = int (digits_val ip) * 100000 + int (digits_val fp)
                  in Some (if neg then - v else v)
             else None)"

definition dec5 :: "int library" where
  "dec5 = \<lparr>float_of_str = dec5_parse, format_10_5f = dec5_format, empty_coord = 0,
           empty_element = [], zero_bond_type = ANY\<rparr>"

subsection \<open>Auxiliary definitions for the proofs\<close>

text \<open>The atom array after the first loop, from the rows read.\<close>

definition atom_rows_result ::
  "'c library \<Rightarrow> nat \<Rightarrow> (('c \<times> 'c \<times> 'c) \<times> string \<times> int \<times> warning list) list
     \<Rightarrow> 'c AtomArray" where
  "atom_rows_result L n rows =
     \<lparr>coord = map fst rows
                @ replicate (n - length rows) (empty_coord L, empty_coord L, empty_coord L),
      element = map (\<lambda>r. fst (snd r)) rows @ replicate (n - length rows) (empty_element L),
      charge = Some (map (\<lambda>r. fst (snd (snd r))) rows @ replicate (n - length rows) 0),
      bonds = None\<rparr>"

text \<open>The reader without loops; \<open>read_structure_from_ctab_eq\<close> shows that it is the reader.\<close>

definition read_result ::
  "'c library \<Rightarrow> string list \<Rightarrow> error + ('c AtomArray \<times> warning list)" where
  "read_result L ctab_lines =
     (case ctab_lines of
        [] \<Rightarrow> Inl IndexError
      | counts_line # _ \<Rightarrow>
      (case get_counts counts_line of
        Inl e \<Rightarrow> Inl e
      | Inr (n_atoms, n_bonds) \<Rightarrow>
          if n_atoms < 0 then Inl ValueError
          else case collect (map (read_atom_line L) (py_slice 1 (1 + n_atoms) ctab_lines)) of
                 Inl e \<Rightarrow> Inl e
               | Inr arows \<Rightarrow>
                   if n_bonds < 0 then Inl ValueError
                   else case collect (map read_bond_line
                                (py_slice (1 + n_atoms) (1 + n_atoms + n_bonds) ctab_lines)) of
                          Inl e \<Rightarrow> Inl e
                        | Inr brows \<Rightarrow>
                            (case BondList (nat n_atoms)
                                    (map fst brows @ replicate (nat n_bonds - length brows)
                                                       (0, 0, zero_bond_type L)) of
                               Inl e \<Rightarrow> Inl e
                             | Inr bond_list \<Rightarrow>
                                 Inr ((atom_rows_result L (nat n_atoms) arows)
                                        \<lparr>bonds := Some bond_list\<rparr>,
                                      concat (map (\<lambda>r. snd (snd (snd r))) arows)
                                      @ concat (map snd brows)))))"

text \<open>The text of atom line \<open>i\<close>, and the charge array the writer uses.\<close>

definition atom_line_text :: "'c library \<Rightarrow> 'c AtomArray \<Rightarrow> int list \<Rightarrow> nat \<Rightarrow> string" where
  "atom_line_text L atoms charge_arr i =
     (case coord atoms ! i of (x, y, z) \<Rightarrow>
        format_10_5f L x @ format_10_5f L y @ format_10_5f L z
        @ '' '' @ rjust 3 (element atoms ! i)
        @ ''  '' @ format_d 3 (dict_get CHARGE_MAPPING_REV (charge_arr ! i) 0)
        @ concat (replicate 10 (format_d 3 0)))"

definition charge_array :: "'c AtomArray \<Rightarrow> int list" where
  "charge_array atoms =
     (case charge atoms of Some cs \<Rightarrow> cs | None \<Rightarrow> replicate (array_length atoms) 0)"

definition charge_of_code :: "int \<Rightarrow> int" where
  "charge_of_code code =
     (if code = 0 then 0 else if code = 1 then 3 else if code = 2 then 2
      else if code = 3 then 1 else if code = 5 then -1 else if code = 6 then -2
      else if code = 7 then -3 else 0)"

section \<open>Proofs: chain utilities\<close>

lemma np_where_Nil: "np_where [] = []" by (simp add: np_where_def)

lemma np_where_Cons:
  "np_where (b # bs) = (if b then [0] else []) @ map Suc (np_where bs)"
proof -
  have "[0..<Suc (length bs)] = 0 # map Suc [0..<length bs]"
    by (simp add: upt_conv_Cons map_Suc_upt del: upt_Suc)
  then show ?thesis
    by (simp add: np_where_def filter_map comp_def del: upt_Suc)
qed

lemma changes_simps:
  "changes [] = []"
  "changes [x] = []"
  "changes (x # y # xs) = (if x \<noteq> y then [1] else []) @ map Suc (changes (y # xs))"
  by (simp_all add: changes_def np_where_Nil np_where_Cons)

lemma changes_rec: "changes ids = starts_rec ids"
  by (induction ids rule: starts_rec.induct) (simp_all only: changes_simps starts_rec.simps, simp_all)

lemma get_chain_starts_rec: "get_chain_starts array = 0 # starts_rec (map chain_id array)"
  using changes_rec [of "map chain_id array"]
  by (simp add: get_chain_starts_def changes_def Let_def)

lemma map_slices:
  "map (\<lambda>i. slice_between (s ! i) (s ! (i + 1)) xs) [0..<length s - 1] = slices s xs"
proof (induction s xs rule: slices.induct)
  case (1 a b r xs)
  have "[0..<Suc (length r)] = 0 # map Suc [0..<length r]"
    by (simp add: upt_conv_Cons map_Suc_upt del: upt_Suc)
  with 1 show ?case by (simp add: comp_def del: upt_Suc)
qed simp_all

lemma chain_iter_slices:
  "chain_iter array = slices (0 # starts_rec (map chain_id array) @ [length array]) array"
  unfolding chain_iter_def Let_def get_chain_starts_rec
  using map_slices [of "(0 # starts_rec (map chain_id array)) @ [length array]" array]
  by simp

lemma slices_shift: "slices (map Suc s) (x # xs) = slices s xs"
  by (induction s xs rule: slices.induct) (simp_all add: slice_between_def)

lemma slices_groups:
  "slices (0 # starts_rec (map f xs) @ [length xs]) xs = groups f xs"
proof (induction f xs rule: groups.induct)
  case (1 f x y xs)
  let ?ys = "y # xs"
  let ?S = "starts_rec (map f ?ys)"
  have IH: "slices (0 # ?S @ [length ?ys]) ?ys = groups f ?ys"
    using 1 by (cases "f x = f y") simp_all
  show ?case
  proof (cases "f x = f y")
    case False
    have "slices (0 # starts_rec (map f (x # ?ys)) @ [length (x # ?ys)]) (x # ?ys)
        = slice_between 0 1 (x # ?ys) # slices (map Suc (0 # ?S @ [length ?ys])) (x # ?ys)"
      using False by simp
    also have "\<dots> = [x] # groups f ?ys"
      unfolding slices_shift IH by (simp add: slice_between_def)
    finally show ?thesis using False by simp
  next
    case True
    obtain b r where br: "?S @ [length ?ys] = b # r"
      by (cases "?S @ [length ?ys]") auto
    have g: "groups f ?ys = slice_between 0 b ?ys # slices (b # r) ?ys"
      using IH br by simp
    have "slices (0 # starts_rec (map f (x # ?ys)) @ [length (x # ?ys)]) (x # ?ys)
        = slices (0 # map Suc (?S @ [length ?ys])) (x # ?ys)"
      using True by simp
    also have "\<dots> = slice_between 0 (Suc b) (x # ?ys) # slices (map Suc (b # r)) (x # ?ys)"
      unfolding br by simp
    also have "\<dots> = (x # slice_between 0 b ?ys) # slices (b # r) ?ys"
      unfolding slices_shift by (simp add: slice_between_def)
    finally show ?thesis using True g by simp
  qed
qed (simp_all add: slice_between_def)

lemma chain_iter_groups: "chain_iter array = groups chain_id array"
  by (simp add: chain_iter_slices slices_groups)

lemma groups_nonempty: "groups f xs \<noteq> []"
  by (induction f xs rule: groups.induct) auto

lemma concat_groups: "concat (groups f xs) = xs"
proof (induction f xs rule: groups.induct)
  case (1 f x y xs)
  then show ?case
    using groups_nonempty [of f "y # xs"]
    by (cases "groups f (y # xs)") (auto split: if_splits)
qed simp_all

lemma hd_groups: "hd (groups f (y # xs)) \<noteq> [] \<and> hd (hd (groups f (y # xs))) = y"
  by (induction f "y # xs" arbitrary: y xs rule: groups.induct) auto

lemma groups_const:
  "c \<in> set (groups f xs) \<Longrightarrow> a \<in> set c \<Longrightarrow> b \<in> set c \<Longrightarrow> f a = f b"
proof (induction f xs arbitrary: c a b rule: groups.induct)
  case (1 f x y xs)
  let ?g = "groups f (y # xs)"
  obtain h t where ht: "?g = h # t" using groups_nonempty [of f "y # xs"] by (cases ?g) auto
  have hy: "h \<noteq> [] \<and> hd h = y" using hd_groups [of f y xs] ht by simp
  show ?case
  proof (cases "f x = f y")
    case False
    then have e: "groups f (x # y # xs) = [x] # ?g" by simp
    have "c \<in> set ([x] # ?g)" using "1.prems"(1) unfolding e .
    then have "c = [x] \<or> c \<in> set ?g" by simp
    then show ?thesis
    proof
      assume "c = [x]"
      then have "a = x" "b = x" using "1.prems"(2,3) by simp_all
      then show ?thesis by simp
    next
      assume "c \<in> set ?g"
      then show ?thesis using "1.IH"(1) [OF False _ "1.prems"(2,3)] by simp
    qed
  next
    case True
    then have e: "groups f (x # y # xs) = (x # h) # t" using ht by simp
    have "c \<in> set ((x # h) # t)" using "1.prems"(1) unfolding e .
    then have c: "c = x # h \<or> c \<in> set t" by simp
    have IH: "\<And>c a b. c \<in> set ?g \<Longrightarrow> a \<in> set c \<Longrightarrow> b \<in> set c \<Longrightarrow> f a = f b"
      using "1.IH"(2) True by blast
    have yh: "y \<in> set h" using hy by (cases h) simp_all
    have hg: "h \<in> set ?g" using ht by simp
    have hh: "\<And>a. a \<in> set h \<Longrightarrow> f a = f y"
      using IH [OF hg _ yh] by blast
    from c show ?thesis
    proof
      assume cx: "c = x # h"
      have "\<And>a. a \<in> set c \<Longrightarrow> f a = f y"
      proof -
        fix a assume "a \<in> set c"
        then have "a = x \<or> a \<in> set h" using cx by simp
        then show "f a = f y" using hh True by blast
      qed
      then show ?thesis using "1.prems"(2,3) by simp
    next
      assume "c \<in> set t"
      then have "c \<in> set ?g" using ht by simp
      then show ?thesis using IH "1.prems"(2,3) by blast
    qed
  qed
next
  case (2 f x)
  then have "a = x" "b = x" by simp_all
  then show ?case by simp
next
  case (3 f)
  then show ?case by simp
qed

lemma length_groups: "length (groups f xs) = Suc (length (starts_rec (map f xs)))"
proof (induction f xs rule: groups.induct)
  case (1 f x y xs)
  then show ?case using groups_nonempty [of f "y # xs"]
    by (cases "groups f (y # xs)") auto
qed simp_all

lemma starts_rec_bounds:
  "sorted_wrt (<) (starts_rec ids) \<and> (\<forall>s \<in> set (starts_rec ids). 0 < s \<and> s < length ids)"
proof (induction ids rule: starts_rec.induct)
  case (1 x y xs)
  then show ?case
    by (auto simp: sorted_wrt_map)
qed simp_all

section \<open>Proofs: connection tables\<close>

subsection \<open>Integers as text\<close>

lemma digit_char_cases:
  "d < 10 \<Longrightarrow> is_digit (digit_char d) \<and> digit_val (digit_char d) = d"
proof -
  assume "d < 10"
  then have "d = 0 \<or> d = 1 \<or> d = 2 \<or> d = 3 \<or> d = 4 \<or> d = 5 \<or> d = 6 \<or> d = 7 \<or> d = 8 \<or> d = 9"
    by arith
  then show ?thesis
    by (elim disjE) (simp_all add: digit_char_def is_digit_def digit_val_def)
qed

lemma is_digit_digit_char: "d < 10 \<Longrightarrow> is_digit (digit_char d)"
  using digit_char_cases [of d] by simp

lemma digit_val_digit_char: "d < 10 \<Longrightarrow> digit_val (digit_char d) = d"
  using digit_char_cases [of d] by simp

lemma is_digit_not_space: "is_digit c \<Longrightarrow> \<not> is_space c"
  by (auto simp: is_digit_def is_space_def)

lemma is_digit_not_int_space: "is_digit c \<Longrightarrow> \<not> is_int_space c"
  by (auto simp: is_digit_def is_int_space_def)

lemma is_digit_not_special:
  "is_digit c \<Longrightarrow> c \<noteq> CHR ''_'' \<and> c \<noteq> CHR ''-'' \<and> c \<noteq> CHR ''+'' \<and> c \<noteq> CHR ''.'' \<and> c \<noteq> CHR '' ''"
  by (auto simp: is_digit_def)

lemma digits_all: "list_all is_digit (digits n)"
proof (induction n rule: digits.induct)
  case (1 n)
  show ?case
  proof (cases "n < 10")
    case True
    then show ?thesis by (simp add: digits.simps [of n] is_digit_digit_char)
  next
    case False
    then show ?thesis using 1 by (simp add: digits.simps [of n] is_digit_digit_char)
  qed
qed

lemma digits_nonempty: "digits n \<noteq> []"
  by (subst digits.simps) simp

lemma digits_val_snoc: "digits_val (ds @ [c]) = 10 * digits_val ds + digit_val c"
  by (simp add: digits_val_def)

lemma digits_val_digits: "digits_val (digits n) = n"
proof (induction n rule: digits.induct)
  case (1 n)
  show ?case
  proof (cases "n < 10")
    case True
    then show ?thesis by (simp add: digits.simps [of n] digits_val_def digit_val_digit_char)
  next
    case False
    then have "digits_val (digits n) = 10 * (n div 10) + n mod 10"
      using 1 by (simp add: digits.simps [of n] digits_val_snoc digit_val_digit_char)
    then show ?thesis by simp
  qed
qed

lemma valid_digits_all: "ds \<noteq> [] \<Longrightarrow> list_all is_digit ds \<Longrightarrow> valid_digits ds"
  by (induction ds rule: valid_digits.induct) (auto dest: is_digit_not_special)

lemma filter_underscore_digits: "list_all is_digit ds \<Longrightarrow> filter (\<lambda>c. c \<noteq> CHR ''_'') ds = ds"
  by (induction ds) (auto dest: is_digit_not_special)

lemma length_digits_le: "n < 10 ^ k \<Longrightarrow> 0 < k \<Longrightarrow> length (digits n) \<le> k"
proof (induction n arbitrary: k rule: digits.induct)
  case (1 n)
  show ?case
  proof (cases "n < 10")
    case True
    then show ?thesis using 1(3) by (simp add: digits.simps [of n])
  next
    case False
    then obtain j where k: "k = Suc j" and j: "0 < j"
      using 1(2,3) by (cases k; cases "k - 1") auto
    have "n div 10 < 10 ^ j" using 1(2) k by (simp add: less_mult_imp_div_less mult.commute)
    then have "length (digits (n div 10)) \<le> j" using 1(1) [OF False _ j] by simp
    then show ?thesis using False k by (simp add: digits.simps [of n])
  qed
qed

lemma strip_padded:
  assumes "s \<noteq> []" "\<not> is_space (hd s)" "\<not> is_space (last s)"
  shows "strip (replicate k CHR '' '' @ s) = s"
proof -
  have sp: "is_space CHR '' ''" by (simp add: is_space_def)
  have 1: "dropWhile is_space (replicate k CHR '' '' @ s) = s"
    using assms sp by (cases s) (simp_all add: dropWhile_append3 dropWhile_append2)
  have 2: "dropWhile is_space (rev s) = rev s"
    using assms by (simp add: dropWhile_eq_self_iff hd_rev)
  show ?thesis by (simp add: strip_def 1 2)
qed

lemma int_strip_padded:
  assumes "s \<noteq> []" "\<not> is_int_space (hd s)" "\<not> is_int_space (last s)"
  shows "int_strip (replicate k CHR '' '' @ s) = s"
proof -
  have sp: "is_int_space CHR '' ''" by (simp add: is_int_space_def)
  have 1: "dropWhile is_int_space (replicate k CHR '' '' @ s) = s"
    using assms sp by (cases s) (simp_all add: dropWhile_append3 dropWhile_append2)
  have 2: "dropWhile is_int_space (rev s) = rev s"
    using assms by (simp add: dropWhile_eq_self_iff hd_rev)
  show ?thesis by (simp add: int_strip_def 1 2)
qed

lemma str_int_ends_int:
  "str_int k \<noteq> [] \<and> \<not> is_int_space (hd (str_int k)) \<and> \<not> is_int_space (last (str_int k))"
proof -
  have a: "\<And>n. \<not> is_int_space (hd (digits n)) \<and> \<not> is_int_space (last (digits n))"
    using digits_all digits_nonempty
    by (metis is_digit_not_int_space hd_in_set last_in_set list_all_iff)
  show ?thesis using a digits_nonempty by (auto simp: str_int_def is_int_space_def)
qed

lemma str_int_ends:
  "str_int k \<noteq> [] \<and> \<not> is_space (hd (str_int k)) \<and> \<not> is_space (last (str_int k))"
proof -
  have a: "\<And>n. \<not> is_space (hd (digits n)) \<and> \<not> is_space (last (digits n))"
    using digits_all digits_nonempty
    by (metis is_digit_not_space hd_in_set last_in_set list_all_iff)
  show ?thesis using a digits_nonempty by (auto simp: str_int_def is_space_def)
qed

lemma py_int_stripped:
  "int_strip s = t \<Longrightarrow>
   py_int s = (case (case t of [] \<Rightarrow> (False, [])
                       | c # r \<Rightarrow> if c = CHR ''-'' then (True, r)
                                 else if c = CHR ''+'' then (False, r) else (False, t)) of
                 (neg, body) \<Rightarrow>
                   if valid_digits body
                   then Some (if neg then - int (digits_val (filter (\<lambda>c. c \<noteq> CHR ''_'') body))
                              else int (digits_val (filter (\<lambda>c. c \<noteq> CHR ''_'') body)))
                   else None)"
  by (auto simp: py_int_def Let_def split: prod.splits)

lemma py_int_str_int_padded: "py_int (replicate j CHR '' '' @ str_int k) = Some k"
proof -
  have s: "int_strip (replicate j CHR '' '' @ str_int k) = str_int k"
    using str_int_ends_int [of k] by (intro int_strip_padded) simp_all
  obtain c r where d: "digits (nat \<bar>k\<bar>) = c # r" using digits_nonempty by (cases "digits (nat \<bar>k\<bar>)") auto
  have c: "is_digit c" using digits_all [of "nat \<bar>k\<bar>"] d by simp
  have v: "valid_digits (digits (nat \<bar>k\<bar>))"
    using valid_digits_all digits_all digits_nonempty by blast
  have f: "filter (\<lambda>c. c \<noteq> CHR ''_'') (digits (nat \<bar>k\<bar>)) = digits (nat \<bar>k\<bar>)"
    using filter_underscore_digits digits_all by blast
  show ?thesis
  proof (cases "k < 0")
    case True
    then have e: "str_int k = CHR ''-'' # digits (nat \<bar>k\<bar>)" by (simp add: str_int_def)
    have s': "int_strip (replicate j CHR '' '' @ CHR ''-'' # digits (nat \<bar>k\<bar>))
                = CHR ''-'' # digits (nat \<bar>k\<bar>)"
      using s e by simp
    have "py_int (replicate j CHR '' '' @ CHR ''-'' # digits (nat \<bar>k\<bar>)) = Some k"
      unfolding py_int_stripped [OF s'] using True v f by (simp add: digits_val_digits)
    then show ?thesis using e by simp
  next
    case False
    then have e: "str_int k = c # r" using d by (simp add: str_int_def)
    have s': "int_strip (replicate j CHR '' '' @ c # r) = c # r"
      using s e by simp
    have "c \<noteq> CHR ''-'' \<and> c \<noteq> CHR ''+''" using c is_digit_not_special by blast
    then have "py_int (replicate j CHR '' '' @ c # r) = Some k"
      unfolding py_int_stripped [OF s'] using False v f d digits_val_digits [of "nat \<bar>k\<bar>"]
      by simp
    then show ?thesis using e by simp
  qed
qed

lemma py_int_format_d: "py_int (format_d w k) = Some k"
  by (simp add: format_d_def rjust_def py_int_str_int_padded)

lemma length_str_int_3: "-99 \<le> k \<Longrightarrow> k \<le> 999 \<Longrightarrow> length (str_int k) \<le> 3"
proof -
  assume a: "-99 \<le> k" "k \<le> 999"
  show ?thesis
  proof (cases "k < 0")
    case True
    then have "nat (- k) < 10 ^ 2" using a by simp
    then have "length (digits (nat (- k))) \<le> 2" by (rule length_digits_le) simp
    then show ?thesis using True by (simp add: str_int_def)
  next
    case False
    then have "nat k < 10 ^ 3" using a by simp
    then have "length (digits (nat k)) \<le> 3" by (rule length_digits_le) simp
    then show ?thesis using False by (simp add: str_int_def)
  qed
qed

lemma length_format_d_3: "-99 \<le> k \<Longrightarrow> k \<le> 999 \<Longrightarrow> length (format_d 3 k) = 3"
  using length_str_int_3 [of k] by (simp add: format_d_def rjust_def)

subsection \<open>The loops of the reader\<close>

lemma length_py_slice_le:
  "0 \<le> a \<Longrightarrow> 0 \<le> n \<Longrightarrow> length (py_slice a (a + n) xs) \<le> nat n"
  by (auto simp: py_slice_def Let_def min_def max_def)

lemma atom_loop_eq:
  assumes "charge atoms = Some cs"
      and "length (coord atoms) = n" "length (element atoms) = n" "length cs = n"
      and "i + length lines \<le> n"
  shows "atom_loop L i lines (atoms, ws) =
     (case collect (map (read_atom_line L) lines) of
        Inl e \<Rightarrow> Inl e
      | Inr rows \<Rightarrow>
          Inr (atoms\<lparr>coord := take i (coord atoms) @ map fst rows
                                 @ drop (i + length lines) (coord atoms),
                     element := take i (element atoms) @ map (\<lambda>r. fst (snd r)) rows
                                 @ drop (i + length lines) (element atoms),
                     charge := Some (take i cs @ map (\<lambda>r. fst (snd (snd r))) rows
                                 @ drop (i + length lines) cs)\<rparr>,
               ws @ concat (map (\<lambda>r. snd (snd (snd r))) rows)))"
  using assms
proof (induction lines arbitrary: i atoms ws cs)
  case Nil
  then show ?case by simp
next
  case (Cons line rest)
  show ?case
  proof (cases "read_atom_line L line")
    case (Inl e)
    then show ?thesis by simp
  next
    case (Inr row)
    obtain xyz el c w where row: "row = (xyz, el, c, w)" by (cases row) auto
    have i: "i < n" using Cons.prems by simp
    let ?atoms' = "atoms\<lparr>coord := (coord atoms)[i := xyz],
                             element := (element atoms)[i := el],
                             charge := Some (cs[i := c])\<rparr>"
    have step: "atom_loop L i (line # rest) (atoms, ws) = atom_loop L (i + 1) rest (?atoms', ws @ w)"
      using Inr row Cons.prems i by simp
    have IH: "atom_loop L (i + 1) rest (?atoms', ws @ w) =
      (case collect (map (read_atom_line L) rest) of
        Inl e \<Rightarrow> Inl e
      | Inr rows \<Rightarrow>
          Inr (?atoms'\<lparr>coord := take (i + 1) (coord ?atoms') @ map fst rows
                                 @ drop (i + 1 + length rest) (coord ?atoms'),
                     element := take (i + 1) (element ?atoms') @ map (\<lambda>r. fst (snd r)) rows
                                 @ drop (i + 1 + length rest) (element ?atoms'),
                     charge := Some (take (i + 1) (cs[i := c]) @ map (\<lambda>r. fst (snd (snd r))) rows
                                 @ drop (i + 1 + length rest) (cs[i := c]))\<rparr>,
               (ws @ w) @ concat (map (\<lambda>r. snd (snd (snd r))) rows)))"
      using Cons.prems by (intro Cons.IH) simp_all
    have t: "\<And>(xs :: 'x list) v. length xs = n \<Longrightarrow> take (Suc i) (xs[i := v]) = take i xs @ [v]"
      using i by (simp add: take_Suc_conv_app_nth)
    have d: "\<And>(xs :: 'x list) v k. drop (i + 1 + k) (xs[i := v]) = drop (i + 1 + k) xs"
      by simp
    show ?thesis
      unfolding step IH using Inr row Cons.prems
      by (cases "collect (map (read_atom_line L) rest)") (simp_all add: t)
  qed
qed

lemma bond_loop_eq:
  assumes "i + length lines \<le> length bond_array"
  shows "bond_loop i lines (bond_array, ws) =
     (case collect (map read_bond_line lines) of
        Inl e \<Rightarrow> Inl e
      | Inr rows \<Rightarrow>
          Inr (take i bond_array @ map fst rows @ drop (i + length lines) bond_array,
               ws @ concat (map snd rows)))"
  using assms
proof (induction lines arbitrary: i bond_array ws)
  case Nil
  then show ?case by simp
next
  case (Cons line rest)
  show ?case
  proof (cases "read_bond_line line")
    case (Inl e)
    then show ?thesis by simp
  next
    case (Inr r)
    obtain row w where r: "r = (row, w)" by (cases r) auto
    have i: "i < length bond_array" using Cons.prems by simp
    have step: "bond_loop i (line # rest) (bond_array, ws)
                = bond_loop (i + 1) rest (bond_array[i := row], ws @ w)"
      using Inr r i by simp
    have IH: "bond_loop (i + 1) rest (bond_array[i := row], ws @ w) =
       (case collect (map read_bond_line rest) of
        Inl e \<Rightarrow> Inl e
      | Inr rows \<Rightarrow>
          Inr (take (i + 1) (bond_array[i := row]) @ map fst rows
                 @ drop (i + 1 + length rest) (bond_array[i := row]),
               (ws @ w) @ concat (map snd rows)))"
      using Cons.prems by (intro Cons.IH) simp
    have t: "take (Suc i) (bond_array[i := row]) = take i bond_array @ [row]"
      using i by (simp add: take_Suc_conv_app_nth)
    show ?thesis
      unfolding step IH using Inr r
      by (cases "collect (map read_bond_line rest)") (simp_all add: t)
  qed
qed

lemma length_collect: "collect rs = Inr xs \<Longrightarrow> length xs = length rs"
  by (induction rs arbitrary: xs) (auto split: sum.splits)

lemma read_unfold:
  assumes "ctab_lines = counts_line # others" "get_counts counts_line = Inr (na, nb)" "0 \<le> na"
  shows "read_structure_from_ctab L ctab_lines =
    (case atom_loop L 0 (py_slice 1 (1 + na) ctab_lines)
            ((new_AtomArray L (nat na))\<lparr>charge := Some (replicate (nat na) 0)\<rparr>, []) of
       Inl e \<Rightarrow> Inl e
     | Inr (atoms, ws) \<Rightarrow>
         if nb < 0 then Inl ValueError
         else case bond_loop 0 (py_slice (1 + na) (1 + na + nb) ctab_lines)
                     (replicate (nat nb) (0, 0, zero_bond_type L), ws) of
                Inl e \<Rightarrow> Inl e
              | Inr (bond_array, ws) \<Rightarrow>
                  (case BondList (nat na) bond_array of
                     Inl e \<Rightarrow> Inl e
                   | Inr bond_list \<Rightarrow> Inr (atoms\<lparr>bonds := Some bond_list\<rparr>, ws)))"
  using assms(2,3) unfolding assms(1)
  by (simp add: read_structure_from_ctab_def Let_def split: sum.splits)

lemma read_result_unfold:
  assumes "ctab_lines = counts_line # others" "get_counts counts_line = Inr (na, nb)" "0 \<le> na"
  shows "read_result L ctab_lines =
    (case collect (map (read_atom_line L) (py_slice 1 (1 + na) ctab_lines)) of
       Inl e \<Rightarrow> Inl e
     | Inr arows \<Rightarrow>
         if nb < 0 then Inl ValueError
         else case collect (map read_bond_line
                      (py_slice (1 + na) (1 + na + nb) ctab_lines)) of
                Inl e \<Rightarrow> Inl e
              | Inr brows \<Rightarrow>
                  (case BondList (nat na)
                          (map fst brows
                           @ replicate (nat nb - length brows) (0, 0, zero_bond_type L)) of
                     Inl e \<Rightarrow> Inl e
                   | Inr bond_list \<Rightarrow>
                       Inr ((atom_rows_result L (nat na) arows)\<lparr>bonds := Some bond_list\<rparr>,
                            concat (map (\<lambda>r. snd (snd (snd r))) arows)
                            @ concat (map snd brows))))"
  using assms(2,3) unfolding assms(1) by (simp add: read_result_def)

lemma atom_loop_fresh:
  assumes "length lines \<le> n"
  shows "atom_loop L 0 lines ((new_AtomArray L n)\<lparr>charge := Some (replicate n 0)\<rparr>, []) =
        (case collect (map (read_atom_line L) lines) of
          Inl e \<Rightarrow> Inl e
        | Inr rows \<Rightarrow> Inr (atom_rows_result L n rows, concat (map (\<lambda>r. snd (snd (snd r))) rows)))"
proof (cases "collect (map (read_atom_line L) lines)")
  case (Inl e)
  then show ?thesis
    using atom_loop_eq [of "(new_AtomArray L n)\<lparr>charge := Some (replicate n 0)\<rparr>"
                           "replicate n 0" n 0 lines L "[]"] assms
    by (simp add: new_AtomArray_def)
next
  case (Inr rows)
  have "length rows = length lines" using length_collect [OF Inr] by simp
  then show ?thesis
    using atom_loop_eq [of "(new_AtomArray L n)\<lparr>charge := Some (replicate n 0)\<rparr>"
                           "replicate n 0" n 0 lines L "[]"] assms Inr
    by (simp add: new_AtomArray_def atom_rows_result_def)
qed

lemma bond_loop_fresh:
  assumes "length lines \<le> n"
  shows "bond_loop 0 lines (replicate n z, ws) =
     (case collect (map read_bond_line lines) of
        Inl e \<Rightarrow> Inl e
      | Inr rows \<Rightarrow> Inr (map fst rows @ replicate (n - length rows) z, ws @ concat (map snd rows)))"
proof (cases "collect (map read_bond_line lines)")
  case (Inl e)
  then show ?thesis using bond_loop_eq [of 0 lines "replicate n z" ws] assms by simp
next
  case (Inr rows)
  have "length rows = length lines" using length_collect [OF Inr] by simp
  then show ?thesis using bond_loop_eq [of 0 lines "replicate n z" ws] assms Inr by simp
qed

lemma read_structure_from_ctab_eq:
  "read_structure_from_ctab L ctab_lines = read_result L ctab_lines"
proof (cases ctab_lines)
  case Nil
  then show ?thesis by (simp add: read_structure_from_ctab_def read_result_def)
next
  case (Cons counts_line others)
  show ?thesis
  proof (cases "get_counts counts_line")
    case (Inl e)
    then show ?thesis using Cons by (simp add: read_structure_from_ctab_def read_result_def)
  next
    case (Inr p)
    obtain na nb where p: "p = (na, nb)" by (cases p) auto
    let ?al = "py_slice 1 (1 + na) ctab_lines"
    let ?bl = "py_slice (1 + na) (1 + na + nb) ctab_lines"
    show ?thesis
    proof (cases "na < 0")
      case True
      then show ?thesis using Cons Inr p
        by (simp add: read_structure_from_ctab_def read_result_def)
    next
      case False
      then have na: "0 \<le> na" by simp
      have gc: "get_counts counts_line = Inr (na, nb)" using Inr p by simp
      have la: "length ?al \<le> nat na" using length_py_slice_le [of 1 na ctab_lines] na by simp
      note al = atom_loop_fresh [OF la, of L]
      show ?thesis
      proof (cases "nb < 0")
        case True
        then show ?thesis
          unfolding read_unfold [OF Cons gc na] read_result_unfold [OF Cons gc na] al
          by (simp split: sum.splits)
      next
        case False
        have lb: "length ?bl \<le> nat nb"
          using length_py_slice_le [of "1 + na" nb ctab_lines] na False by simp
        note bl = bond_loop_fresh [OF lb]
        show ?thesis
          unfolding read_unfold [OF Cons gc na] read_result_unfold [OF Cons gc na] al
          using False by (simp add: bl split: sum.splits)
      qed
    qed
  qed
qed



lemmas str_eval = slice_between_def py_slice_def py_int_def strip_def is_space_def is_digit_def
  int_strip_def is_int_space_def latin1_lower_def latin1_upper_def
  digits_val_def digit_val_def Let_def upper_def upper_char_def rjust_def format_d_def str_int_def
  digit_char_def str_split_def dict_get_def dict_of_def

subsection \<open>The writer\<close>

lemma collect_map_Inr: "collect (map (\<lambda>x. Inr (f x)) xs) = Inr (map f xs)"
  by (induction xs) simp_all

lemma write_atom_line_valid:
  assumes "i < length (coord atoms)" "i < length (element atoms)" "i < length charge_arr"
  shows "write_atom_line L atoms charge_arr i = Inr (atom_line_text L atoms charge_arr i)"
  using assms by (simp add: write_atom_line_def atom_line_text_def get_item_def split: prod.splits)

lemma collect_atom_lines:
  assumes "length (element atoms) = length (coord atoms)" "length charge_arr = length (coord atoms)"
  shows "collect (map (write_atom_line L atoms charge_arr) [0..<length (coord atoms)])
         = Inr (map (atom_line_text L atoms charge_arr) [0..<length (coord atoms)])"
proof -
  have "map (write_atom_line L atoms charge_arr) [0..<length (coord atoms)]
        = map (\<lambda>i. Inr (atom_line_text L atoms charge_arr i)) [0..<length (coord atoms)]"
    using assms by (intro map_cong [OF refl]) (simp add: write_atom_line_valid)
  then show ?thesis by (simp only: collect_map_Inr)
qed

lemma write_valid:
  assumes "valid_AtomArray atoms" "bonds atoms = Some bond_list"
  shows "write_structure_to_ctab L (IsAtomArray atoms) =
     Inr ([format_d 3 (int (array_length atoms)) @ format_d 3 (int (length bond_list))
             @ ''     0  0  0  0  0  1 V2000'']
          @ map (atom_line_text L atoms (charge_array atoms)) [0..<array_length atoms]
          @ map write_bond_line bond_list @ [''M  END''])"
proof -
  have l: "length (element atoms) = length (coord atoms)"
          "length (charge_array atoms) = length (coord atoms)"
    using assms(1)
    by (auto simp: valid_AtomArray_def charge_array_def array_length_def split: option.splits)
  show ?thesis
    using collect_atom_lines [OF l, of L] assms(2)
    by (simp add: write_structure_to_ctab_def array_length_def charge_array_def [symmetric]
          del: upt_Suc)
qed


lemma charge_rev_zero: "dict_get CHARGE_MAPPING_REV 0 0 = 0"
  by (simp add: dict_get_def CHARGE_MAPPING_REV_def CHARGE_MAPPING_def dict_of_def)


lemma format_d_3_0: "format_d 3 0 = ''  0''"
  by (simp add: str_eval digits.simps eval_nat_numeral)

lemma padding_fields:
  "concat (replicate 10 (format_d 3 0)) = ''  0  0  0  0  0  0  0  0  0  0''"
  "concat (replicate 4 (format_d 3 0)) = ''  0  0  0  0''"
  unfolding format_d_3_0 by (simp_all add: eval_nat_numeral)

subsection \<open>Lines read\<close>

lemma CHARGE_MAPPING_lookup:
  "dict_of CHARGE_MAPPING code =
     (if code \<in> {0, 1, 2, 3, 5, 6, 7} then Some (charge_of_code code) else None)"
  by (simp add: dict_of_def CHARGE_MAPPING_def charge_of_code_def)

lemma collect_nth:
  "collect rs = Inr xs \<Longrightarrow> i < length rs \<Longrightarrow> rs ! i = Inr (xs ! i)"
proof (induction rs arbitrary: xs i)
  case Nil
  then show ?case by simp
next
  case (Cons r rs)
  then show ?case by (cases i) (auto split: sum.splits)
qed

lemma read_atom_line_Inr:
  assumes "read_atom_line L line = Inr (xyz, el, c, w)"
  shows "\<exists>code. py_int (slice_between 36 39 line) = Some code \<and> c = charge_of_code code
               \<and> w = (if code \<in> {0, 1, 2, 3, 5, 6, 7} then [] else [ChargeWarning code])"
proof -
  obtain code where code: "py_int (slice_between 36 39 line) = Some code"
    using assms by (auto simp: read_atom_line_def Let_def split: option.splits)
  show ?thesis
  proof (cases "code \<in> {0, 1, 2, 3, 5, 6, 7}")
    case True
    then have "dict_of CHARGE_MAPPING code = Some (charge_of_code code)"
      by (simp only: CHARGE_MAPPING_lookup if_True)
    then have "c = charge_of_code code \<and> w = []"
      using assms code by (auto simp: read_atom_line_def Let_def split: option.splits)
    then have "c = charge_of_code code"
      and "w = (if code \<in> {0, 1, 2, 3, 5, 6, 7} then [] else [ChargeWarning code])"
      using if_P [OF True, of "[]" "[ChargeWarning code]"] by simp_all
    with code show ?thesis by blast
  next
    case False
    then have "dict_of CHARGE_MAPPING code = None"
      by (simp only: CHARGE_MAPPING_lookup if_False)
    then have "c = 0 \<and> w = [ChargeWarning code]"
      using assms code by (auto simp: read_atom_line_def Let_def split: option.splits)
    moreover have "charge_of_code code = 0" using False by (simp add: charge_of_code_def)
    ultimately have "c = charge_of_code code"
      and "w = (if code \<in> {0, 1, 2, 3, 5, 6, 7} then [] else [ChargeWarning code])"
      using if_not_P [OF False, of "[]" "[ChargeWarning code]"] by simp_all
    with code show ?thesis by blast
  qed
qed

lemma read_atom_line_Inl:
  assumes "read_atom_line L line = Inl e"
  shows "e = ValueError \<and>
         (float_of_str L (slice_between 0 10 line) = None \<or> float_of_str L (slice_between 10 20 line) = None
          \<or> float_of_str L (slice_between 20 30 line) = None \<or> py_int (slice_between 36 39 line) = None)"
  using assms
  by (auto simp: read_atom_line_def Let_def split: option.splits)

lemma read_bond_line_warnings:
  "read_bond_line line = Inr (row, w) \<Longrightarrow> ChargeWarning k \<notin> set w"
  by (auto simp: read_bond_line_def Let_def split: option.splits if_splits)

subsection \<open>When the reader returns\<close>

lemma read_atom_line_returns:
  "(\<exists>row. read_atom_line L line = Inr row) \<longleftrightarrow> atom_fields_convert L line"
  by (auto simp: read_atom_line_def atom_fields_convert_def Let_def split: option.splits)

lemma collect_returns:
  "(\<exists>ys. collect (map f xs) = Inr ys) \<longleftrightarrow> list_all (\<lambda>x. \<exists>y. f x = Inr y) xs"
proof (induction xs)
  case Nil
  then show ?case by simp
next
  case (Cons x xs)
  show ?case
  proof (cases "f x")
    case (Inl e)
    then show ?thesis by simp
  next
    case (Inr y)
    then show ?thesis using Cons by (cases "collect (map f xs)") simp_all
  qed
qed

lemma collect_atom_lines_returns:
  "(\<exists>rows. collect (map (read_atom_line L) ls) = Inr rows) \<longleftrightarrow> list_all (atom_fields_convert L) ls"
proof -
  have "(\<lambda>x. \<exists>y. read_atom_line L x = Inr y) = atom_fields_convert L"
    using read_atom_line_returns [of L] by (intro ext) blast
  then show ?thesis unfolding collect_returns by (simp only:)
qed

lemma read_returns_iff:
  "(\<exists>r. read_structure_from_ctab L ctab_lines = Inr r) \<longleftrightarrow> readable L ctab_lines"
proof (cases ctab_lines)
  case Nil
  then show ?thesis by (simp add: read_structure_from_ctab_def readable_def)
next
  case (Cons counts_line others)
  show ?thesis
  proof (cases "get_counts counts_line")
    case (Inl e)
    then show ?thesis using Cons by (simp add: read_structure_from_ctab_def readable_def)
  next
    case (Inr p)
    obtain na nb where p: "p = (na, nb)" by (cases p) auto
    have gc: "get_counts counts_line = Inr (na, nb)" using Inr p by simp
    let ?al = "py_slice 1 (1 + na) ctab_lines"
    let ?bl = "py_slice (1 + na) (1 + na + nb) ctab_lines"
    have rd: "readable L ctab_lines \<longleftrightarrow>
               0 \<le> na \<and> 0 \<le> nb \<and> list_all (atom_fields_convert L) ?al
               \<and> (case collect (map read_bond_line ?bl) of
                     Inl e \<Rightarrow> False
                   | Inr brows \<Rightarrow>
                       (case BondList (nat na)
                               (map fst brows @ replicate (nat nb - length brows)
                                                  (0, 0, zero_bond_type L)) of
                          Inl e \<Rightarrow> False
                        | Inr bond_list \<Rightarrow> True))"
      using gc unfolding Cons by (simp add: readable_def)
    show ?thesis
    proof (cases "0 \<le> na")
      case False
      then show ?thesis using gc rd unfolding Cons
        by (simp add: read_structure_from_ctab_def)
    next
      case True
      note ru = read_result_unfold [OF Cons gc True, of L]
      show ?thesis
      proof (cases "collect (map (read_atom_line L) ?al)")
        case (Inl e)
        then have "\<not> list_all (atom_fields_convert L) ?al"
          using collect_atom_lines_returns [of L ?al] by simp
        then show ?thesis
          unfolding read_structure_from_ctab_eq ru rd using Inl by simp
      next
        case arows: (Inr arows)
        then have al: "list_all (atom_fields_convert L) ?al"
          using collect_atom_lines_returns [of L ?al] by auto
        show ?thesis
        proof (cases "nb < 0")
          case True
          then show ?thesis unfolding read_structure_from_ctab_eq ru rd using arows by simp
        next
          case False
          show ?thesis
            unfolding read_structure_from_ctab_eq ru rd using arows al False \<open>0 \<le> na\<close>
            by (simp split: sum.splits)
        qed
      qed
    qed
  qed
qed

lemma read_Inr_cases:
  assumes "read_structure_from_ctab L ctab_lines = Inr (atoms, ws)"
  obtains counts_line others na nb arows brows bl where
     "ctab_lines = counts_line # others" "get_counts counts_line = Inr (na, nb)"
     "0 \<le> na" "0 \<le> nb"
     "collect (map (read_atom_line L) (py_slice 1 (1 + na) ctab_lines)) = Inr arows"
     "collect (map read_bond_line (py_slice (1 + na) (1 + na + nb) ctab_lines)) = Inr brows"
     "BondList (nat na) (map fst brows @ replicate (nat nb - length brows)
                                           (0, 0, zero_bond_type L)) = Inr bl"
     "atoms = (atom_rows_result L (nat na) arows)\<lparr>bonds := Some bl\<rparr>"
     "ws = concat (map (\<lambda>r. snd (snd (snd r))) arows) @ concat (map snd brows)"
proof -
  obtain counts_line others where cl: "ctab_lines = counts_line # others"
    using assms by (cases ctab_lines) (auto simp: read_structure_from_ctab_def)
  obtain na nb where gc: "get_counts counts_line = Inr (na, nb)"
    using assms unfolding cl
    by (cases "get_counts counts_line") (auto simp: read_structure_from_ctab_def)
  have na: "0 \<le> na"
    using assms gc unfolding cl by (auto simp: read_structure_from_ctab_def split: if_splits)
  let ?al = "py_slice 1 (1 + na) ctab_lines"
  let ?bl = "py_slice (1 + na) (1 + na + nb) ctab_lines"
  have r: "read_result L ctab_lines = Inr (atoms, ws)"
    using assms by (simp add: read_structure_from_ctab_eq)
  note r' = r [unfolded read_result_unfold [OF cl gc na]]
  obtain arows where ar: "collect (map (read_atom_line L) ?al) = Inr arows"
    using r' by (cases "collect (map (read_atom_line L) ?al)") simp_all
  have nbn: "\<not> nb < 0" using r' unfolding ar by (simp split: if_splits)
  obtain brows where br: "collect (map read_bond_line ?bl) = Inr brows"
    using r' nbn unfolding ar by (cases "collect (map read_bond_line ?bl)") simp_all
  let ?ba = "map fst brows @ replicate (nat nb - length brows) (0, 0, zero_bond_type L)"
  obtain bl where bl: "BondList (nat na) ?ba = Inr bl"
    using r' nbn unfolding ar br by (cases "BondList (nat na) ?ba") simp_all
  have at: "atoms = (atom_rows_result L (nat na) arows)\<lparr>bonds := Some bl\<rparr>"
    and ws: "ws = concat (map (\<lambda>r. snd (snd (snd r))) arows) @ concat (map snd brows)"
    using r' nbn by (simp_all add: ar br bl)
  have nb: "0 \<le> nb" using nbn by simp
  show ?thesis by (rule that [OF cl gc na nb ar br bl at ws])
qed

lemma read_Inr_intro:
  assumes "ctab_lines = counts_line # others" "get_counts counts_line = Inr (na, nb)"
     "0 \<le> na" "0 \<le> nb"
     "collect (map (read_atom_line L) (py_slice 1 (1 + na) ctab_lines)) = Inr arows"
     "collect (map read_bond_line (py_slice (1 + na) (1 + na + nb) ctab_lines)) = Inr brows"
     "BondList (nat na) (map fst brows @ replicate (nat nb - length brows)
                                           (0, 0, zero_bond_type L)) = Inr bl"
  shows "read_structure_from_ctab L ctab_lines =
           Inr ((atom_rows_result L (nat na) arows)\<lparr>bonds := Some bl\<rparr>,
                concat (map (\<lambda>r. snd (snd (snd r))) arows) @ concat (map snd brows))"
  unfolding read_structure_from_ctab_eq read_result_unfold [OF assms(1,2,3)]
  using assms(4,5,6,7) by simp

lemma read_charge_mapping_returned:
  assumes "read_structure_from_ctab L ctab_lines = Inr (atoms, ws)"
      and "get_counts (hd ctab_lines) = Inr (n_atoms, n_bonds)"
      and "i < length (py_slice 1 (1 + n_atoms) ctab_lines)"
  shows "(\<exists>code cs. py_int (slice_between 36 39 (py_slice 1 (1 + n_atoms) ctab_lines ! i)) = Some code
            \<and> charge atoms = Some cs \<and> i < length cs
            \<and> cs ! i = (if code = 0 then 0 else if code = 1 then 3 else if code = 2 then 2
                        else if code = 3 then 1 else if code = 5 then -1
                        else if code = 6 then -2 else if code = 7 then -3 else 0)
            \<and> (ChargeWarning code \<in> set ws \<longleftrightarrow> code \<notin> {0, 1, 2, 3, 5, 6, 7}))
       \<and> (\<forall>line e. read_atom_line L line = Inl e \<longrightarrow>
             e = ValueError \<and>
             (float_of_str L (slice_between 0 10 line) = None \<or> float_of_str L (slice_between 10 20 line) = None
              \<or> float_of_str L (slice_between 20 30 line) = None \<or> py_int (slice_between 36 39 line) = None))"
proof -
  let ?al = "py_slice 1 (1 + n_atoms) ctab_lines"
  let ?bl = "py_slice (1 + n_atoms) (1 + n_atoms + n_bonds) ctab_lines"
  from assms(1) obtain counts_line others na nb arows brows bl where
        cl: "ctab_lines = counts_line # others"
    and gc': "get_counts counts_line = Inr (na, nb)"
    and "0 \<le> na" and "0 \<le> nb"
    and ar': "collect (map (read_atom_line L) (py_slice 1 (1 + na) ctab_lines)) = Inr arows"
    and br': "collect (map read_bond_line (py_slice (1 + na) (1 + na + nb) ctab_lines))
                = Inr brows"
    and "BondList (nat na) (map fst brows @ replicate (nat nb - length brows)
                                           (0, 0, zero_bond_type L)) = Inr bl"
    and at': "atoms = (atom_rows_result L (nat na) arows)\<lparr>bonds := Some bl\<rparr>"
    and ws: "ws = concat (map (\<lambda>r. snd (snd (snd r))) arows) @ concat (map snd brows)"
    by (rule read_Inr_cases)
  have e: "na = n_atoms" "nb = n_bonds" using assms(2) gc' cl by simp_all
  have ar: "collect (map (read_atom_line L) ?al) = Inr arows" using ar' e by simp
  have br: "collect (map read_bond_line ?bl) = Inr brows" using br' e by simp
  have at: "atoms = (atom_rows_result L (nat n_atoms) arows)\<lparr>bonds := Some bl\<rparr>"
    using at' e by simp
  have la: "length arows = length ?al" using length_collect [OF ar] by simp
  have lb: "length brows = length ?bl" using length_collect [OF br] by simp
  have row: "\<And>j. j < length ?al \<Longrightarrow> read_atom_line L (?al ! j) = Inr (arows ! j)"
    using collect_nth [OF ar] by simp
  have brow: "\<And>j. j < length ?bl \<Longrightarrow> read_bond_line (?bl ! j) = Inr (brows ! j)"
    using collect_nth [OF br] by simp
  obtain xyz el c w where ri: "arows ! i = (xyz, el, c, w)" by (cases "arows ! i") auto
  obtain code where code: "py_int (slice_between 36 39 (?al ! i)) = Some code"
      and c: "c = charge_of_code code"
      and w: "w = (if code \<in> {0, 1, 2, 3, 5, 6, 7} then [] else [ChargeWarning code])"
    using read_atom_line_Inr [of L "?al ! i" xyz el c w] row [OF assms(3)] ri by auto
  let ?cs = "map (\<lambda>r. fst (snd (snd r))) arows @ replicate (nat n_atoms - length arows) 0"
  have cs: "charge atoms = Some ?cs" by (simp add: at atom_rows_result_def)
  have csi: "i < length ?cs \<and> ?cs ! i = charge_of_code code"
    using assms(3) la ri c by (simp add: nth_append)
  have nb: "\<And>k. ChargeWarning k \<notin> set (concat (map snd brows))"
  proof
    fix k assume "ChargeWarning k \<in> set (concat (map snd brows))"
    then obtain b where b: "b \<in> set brows" "ChargeWarning k \<in> set (snd b)" by auto
    then obtain j where j: "j < length brows" "brows ! j = b" by (auto simp: in_set_conv_nth)
    then have "read_bond_line (?bl ! j) = Inr (fst b, snd b)" using brow [of j] lb by simp
    then show False using read_bond_line_warnings b(2) by blast
  qed
  have w1: "code \<notin> {0, 1, 2, 3, 5, 6, 7} \<Longrightarrow> ChargeWarning code \<in> set ws"
  proof -
    assume "code \<notin> {0, 1, 2, 3, 5, 6, 7}"
    then have "ChargeWarning code \<in> set (snd (snd (snd (arows ! i))))" using w ri by simp
    moreover have "arows ! i \<in> set arows" using assms(3) la by simp
    ultimately show ?thesis unfolding ws by auto
  qed
  have w2: "ChargeWarning code \<in> set ws \<Longrightarrow> code \<notin> {0, 1, 2, 3, 5, 6, 7}"
  proof -
    assume "ChargeWarning code \<in> set ws"
    then have "ChargeWarning code \<in> set (concat (map (\<lambda>r. snd (snd (snd r))) arows))"
      using nb unfolding ws by auto
    then obtain a where a: "a \<in> set arows" "ChargeWarning code \<in> set (snd (snd (snd a)))" by auto
    then obtain j where j: "j < length arows" "arows ! j = a" by (auto simp: in_set_conv_nth)
    obtain xyz' el' c' w' where aj: "a = (xyz', el', c', w')" by (cases a) auto
    have "read_atom_line L (?al ! j) = Inr (xyz', el', c', w')" using row [of j] j la aj by simp
    from read_atom_line_Inr [OF this] obtain code' where
      "w' = (if code' \<in> {0, 1, 2, 3, 5, 6, 7} then [] else [ChargeWarning code'])" by blast
    then show ?thesis using a(2) aj by (auto split: if_splits)
  qed
  have w3: "ChargeWarning code \<in> set ws \<longleftrightarrow> code \<notin> {0, 1, 2, 3, 5, 6, 7}"
    using w1 w2 by (rule_tac iffI)
  have csi': "?cs ! i = (if code = 0 then 0 else if code = 1 then 3 else if code = 2 then 2
                        else if code = 3 then 1 else if code = 5 then -1
                        else if code = 6 then -2 else if code = 7 then -3 else 0)"
    using csi unfolding charge_of_code_def by (rule conjunct2)
  have A: "\<exists>code cs. py_int (slice_between 36 39 (?al ! i)) = Some code
            \<and> charge atoms = Some cs \<and> i < length cs
            \<and> cs ! i = (if code = 0 then 0 else if code = 1 then 3 else if code = 2 then 2
                        else if code = 3 then 1 else if code = 5 then -1
                        else if code = 6 then -2 else if code = 7 then -3 else 0)
            \<and> (ChargeWarning code \<in> set ws \<longleftrightarrow> code \<notin> {0, 1, 2, 3, 5, 6, 7})"
    apply (rule exI [of _ code], rule exI [of _ ?cs])
    apply (intro conjI)
        apply (rule code)
       apply (rule cs)
      apply (rule conjunct1 [OF csi])
     apply (rule csi')
    apply (rule w3)
    done
  have B: "\<forall>line e. read_atom_line L line = Inl e \<longrightarrow>
             e = ValueError \<and>
             (float_of_str L (slice_between 0 10 line) = None \<or> float_of_str L (slice_between 10 20 line) = None
              \<or> float_of_str L (slice_between 20 30 line) = None \<or> py_int (slice_between 36 39 line) = None)"
    using read_atom_line_Inl by (intro allI impI)
  show ?thesis using A B by (rule conjI)
qed

section \<open>Claims: chain utilities\<close>

text \<open>
  Claim C9. For every atom array, the subarrays yielded by \<open>chain_iter\<close> are the slices
  between consecutive entries of the chain starts extended by the array length; these
  indices are sorted, so the slices are consecutive and do not overlap; their
  concatenation is the array, hence their lengths sum to the array length; there are
  \<open>get_chain_count\<close> of them; and the chain ID is constant within each of them.
\<close>

theorem chain_iter_partition:
  fixes array :: "'m atom_scheme list"
  shows "(\<forall>i < get_chain_count array. chain_iter array ! i =
            slice_between ((get_chain_starts array @ [length array]) ! i)
                  ((get_chain_starts array @ [length array]) ! (i + 1)) array)
       \<and> sorted (get_chain_starts array @ [length array])
       \<and> concat (chain_iter array) = array
       \<and> sum_list (map length (chain_iter array)) = length array
       \<and> length (chain_iter array) = get_chain_count array
       \<and> (\<forall>c \<in> set (chain_iter array). \<forall>a \<in> set c. \<forall>b \<in> set c. chain_id a = chain_id b)"
proof -
  have 1: "\<forall>i < get_chain_count array. chain_iter array ! i =
            slice_between ((get_chain_starts array @ [length array]) ! i)
                  ((get_chain_starts array @ [length array]) ! (i + 1)) array"
    by (simp add: chain_iter_def get_chain_count_def Let_def del: upt_Suc)
  let ?S = "starts_rec (map chain_id array)"
  have b: "sorted_wrt (<) ?S" "\<forall>s \<in> set ?S. 0 < s \<and> s < length array"
    using starts_rec_bounds [of "map chain_id array"] by simp_all
  have "sorted ?S" using b(1) by (simp add: strict_sorted_imp_sorted)
  moreover have "\<forall>s \<in> set ?S. s \<le> length array" using b(2) by (simp add: less_imp_le)
  ultimately have "sorted (?S @ [length array])" by (simp add: sorted_append)
  then have 2: "sorted (get_chain_starts array @ [length array])"
    by (simp add: get_chain_starts_rec)
  have 3: "concat (chain_iter array) = array"
    by (simp only: chain_iter_groups concat_groups)
  have "length (concat (chain_iter array)) = length array" by (simp only: 3)
  then have 4: "sum_list (map length (chain_iter array)) = length array"
    by (simp only: length_concat)
  have 5: "length (chain_iter array) = get_chain_count array"
    by (simp only: chain_iter_groups length_groups get_chain_count_def get_chain_starts_rec
          length_Cons)
  have 6: "\<forall>c \<in> set (chain_iter array). \<forall>a \<in> set c. \<forall>b \<in> set c. chain_id a = chain_id b"
  proof (intro ballI)
    fix c a b
    assume "c \<in> set (chain_iter array)" "a \<in> set c" "b \<in> set c"
    then show "chain_id a = chain_id b"
      unfolding chain_iter_groups by (rule groups_const)
  qed
  from 1 2 3 4 5 6 show ?thesis by (intro conjI)
qed

theorem chain_iter_partition_witness:
  "0 < get_chain_count ex_chain_array
   \<and> chain_iter ex_chain_array ! 0 = slice_between 0 2 ex_chain_array
   \<and> [\<lparr>chain_id = ''A''\<rparr>, \<lparr>chain_id = ''A''\<rparr>] \<in> set (chain_iter ex_chain_array)
   \<and> chain_iter ex_chain_array =
        [[\<lparr>chain_id = ''A''\<rparr>, \<lparr>chain_id = ''A''\<rparr>], [\<lparr>chain_id = ''B''\<rparr>], [\<lparr>chain_id = ''A''\<rparr>]]
   \<and> sum_list (map length (chain_iter ex_chain_array)) = 4"
proof -
  have s: "get_chain_starts ex_chain_array = [0, 2, 3]"
    by (simp add: get_chain_starts_rec ex_chain_array_def)
  have c: "get_chain_count ex_chain_array = 3"
    by (simp add: get_chain_count_def s)
  have i: "chain_iter ex_chain_array =
        [[\<lparr>chain_id = ''A''\<rparr>, \<lparr>chain_id = ''A''\<rparr>], [\<lparr>chain_id = ''B''\<rparr>], [\<lparr>chain_id = ''A''\<rparr>]]"
    by (simp add: chain_iter_groups ex_chain_array_def)
  have l: "length ex_chain_array = 4" by (simp add: ex_chain_array_def)
  show ?thesis
    using chain_iter_partition [of ex_chain_array] c i l
    by (simp add: s slice_between_def ex_chain_array_def)
qed

text \<open>
  Claim C10. For every atom array, also the empty one, the first element of
  \<open>get_chain_starts\<close> is 0; so \<open>get_chain_count\<close> is at least 1, and it is 1 for the
  array without atoms.
\<close>

theorem get_chain_starts_first:
  "get_chain_starts array \<noteq> [] \<and> hd (get_chain_starts array) = 0 \<and> get_chain_starts array ! 0 = 0
   \<and> 1 \<le> get_chain_count array \<and> get_chain_count [] = 1"
  by (simp add: get_chain_starts_def get_chain_count_def Let_def np_where_Nil)

section \<open>Claims: connection tables\<close>

text \<open>
  Claim C2 (the code departs from it). The reader maps the bond type codes 1, 2, 3, 6,
  7, 8 to single, double, triple, single, double, any, and any other code to any. The
  claim says that a warning is issued exactly for the codes outside this table. The
  reader tests the looked-up bond type against \<open>ANY\<close> instead, so the code 8, which
  the table has, is reported as well: a bond line with code 8 gives the bond type
  \<open>ANY\<close> and the warning for code 8.
\<close>

theorem read_bond_type_8_warns:
  "dict_of BOND_TYPE_MAPPING 8 = Some ANY
   \<and> read_bond_line ''  1  2  8  0  0  0  0'' = Inr ((0, 1, ANY), [BondWarning 8])
   \<and> read_structure_from_ctab dec5
        [''  2  1     0  0  0  0  0  1 V2000'',
         ''   0.00000   0.00000   0.00000   C    0  0  0  0  0  0  0  0  0  0  0'',
         ''   1.50000   0.00000   0.00000   O    0  0  0  0  0  0  0  0  0  0  0'',
         ''  1  2  8  0  0  0  0'', ''M  END'']
       = Inr (\<lparr>coord = [(0, 0, 0), (150000, 0, 0)], element = [''C'', ''O''],
                charge = Some [0, 0], bonds = Some [(0, 1, ANY)]\<rparr>, [BondWarning 8])"
proof -
  have c: "get_counts ''  2  1     0  0  0  0  0  1 V2000'' = Inr (2, 1)"
    by (simp add: get_counts_def str_eval)
  have 1: "dict_of BOND_TYPE_MAPPING 8 = Some ANY"
    by (simp add: dict_of_def BOND_TYPE_MAPPING_def)
  have 2: "read_bond_line ''  1  2  8  0  0  0  0'' = Inr ((0, 1, ANY), [BondWarning 8])"
    by (simp add: read_bond_line_def BOND_TYPE_MAPPING_def str_eval)
  have 3: "read_structure_from_ctab dec5
        [''  2  1     0  0  0  0  0  1 V2000'',
         ''   0.00000   0.00000   0.00000   C    0  0  0  0  0  0  0  0  0  0  0'',
         ''   1.50000   0.00000   0.00000   O    0  0  0  0  0  0  0  0  0  0  0'',
         ''  1  2  8  0  0  0  0'', ''M  END'']
       = Inr (\<lparr>coord = [(0, 0, 0), (150000, 0, 0)], element = [''C'', ''O''],
                charge = Some [0, 0], bonds = Some [(0, 1, ANY)]\<rparr>, [BondWarning 8])"
    by (simp add: read_structure_from_ctab_eq read_result_def c py_slice_def Let_def
        read_atom_line_def dec5_def dec5_parse_def CHARGE_MAPPING_def str_eval
        read_bond_line_def BOND_TYPE_MAPPING_def atom_rows_result_def BondList_def
        sort_bond_def)
  from 1 2 3 show ?thesis by (intro conjI)
qed

text \<open>
  Claim C4. The reader returns exactly when the lines are \<open>readable\<close>, a condition on
  the counts line, on the convertibility of the fields of the atom and bond lines and on
  the bond indices, which does not depend on the value of any charge code: so a charge
  code outside the table never aborts the parse. Whenever the reader returns, the charge
  of the atom read from atom line \<open>i\<close> is given by the table 0, 1, 2, 3, 5, 6, 7 \<open>\<mapsto>\<close>
  0, +3, +2, +1, -1, -2, -3 applied to the integer in columns 36 to 39; for any other
  code, also 4, the charge is 0 and a warning naming the code is among the warnings
  returned, and a warning for a code is returned only if the code is outside the table.
  A single atom line fails only when one of its four fields cannot be converted, and
  then with \<open>ValueError\<close>.
\<close>

theorem read_charge_mapping:
  "((\<exists>r. read_structure_from_ctab L ctab_lines = Inr r) \<longleftrightarrow> readable L ctab_lines)
   \<and> (\<forall>atoms ws n_atoms n_bonds i.
          read_structure_from_ctab L ctab_lines = Inr (atoms, ws)
          \<and> get_counts (hd ctab_lines) = Inr (n_atoms, n_bonds)
          \<and> i < length (py_slice 1 (1 + n_atoms) ctab_lines) \<longrightarrow>
          (\<exists>code cs.
              py_int (slice_between 36 39 (py_slice 1 (1 + n_atoms) ctab_lines ! i)) = Some code
            \<and> charge atoms = Some cs \<and> i < length cs
            \<and> cs ! i = (if code = 0 then 0 else if code = 1 then 3 else if code = 2 then 2
                        else if code = 3 then 1 else if code = 5 then -1
                        else if code = 6 then -2 else if code = 7 then -3 else 0)
            \<and> (ChargeWarning code \<in> set ws \<longleftrightarrow> code \<notin> {0, 1, 2, 3, 5, 6, 7})))
   \<and> (\<forall>line e. read_atom_line L line = Inl e \<longrightarrow>
          e = ValueError \<and>
          (float_of_str L (slice_between 0 10 line) = None
           \<or> float_of_str L (slice_between 10 20 line) = None
           \<or> float_of_str L (slice_between 20 30 line) = None
           \<or> py_int (slice_between 36 39 line) = None))"
proof (intro conjI allI impI)
  show "(\<exists>r. read_structure_from_ctab L ctab_lines = Inr r) \<longleftrightarrow> readable L ctab_lines"
    by (rule read_returns_iff)
next
  fix atoms ws n_atoms n_bonds i
  assume a: "read_structure_from_ctab L ctab_lines = Inr (atoms, ws)
          \<and> get_counts (hd ctab_lines) = Inr (n_atoms, n_bonds)
          \<and> i < length (py_slice 1 (1 + n_atoms) ctab_lines)"
  then have a1: "read_structure_from_ctab L ctab_lines = Inr (atoms, ws)"
    and a2: "get_counts (hd ctab_lines) = Inr (n_atoms, n_bonds)"
    and a3: "i < length (py_slice 1 (1 + n_atoms) ctab_lines)"
    by blast+
  show "\<exists>code cs.
              py_int (slice_between 36 39 (py_slice 1 (1 + n_atoms) ctab_lines ! i)) = Some code
            \<and> charge atoms = Some cs \<and> i < length cs
            \<and> cs ! i = (if code = 0 then 0 else if code = 1 then 3 else if code = 2 then 2
                        else if code = 3 then 1 else if code = 5 then -1
                        else if code = 6 then -2 else if code = 7 then -3 else 0)
            \<and> (ChargeWarning code \<in> set ws \<longleftrightarrow> code \<notin> {0, 1, 2, 3, 5, 6, 7})"
    by (rule conjunct1 [OF read_charge_mapping_returned [OF a1 a2 a3]])
next
  fix line e
  assume "read_atom_line L line = Inl e"
  then show "e = ValueError"
    by (rule conjunct1 [OF read_atom_line_Inl])
next
  fix line e
  assume "read_atom_line L line = Inl e"
  then show "float_of_str L (slice_between 0 10 line) = None
           \<or> float_of_str L (slice_between 10 20 line) = None
           \<or> float_of_str L (slice_between 20 30 line) = None
           \<or> py_int (slice_between 36 39 line) = None"
    by (rule conjunct2 [OF read_atom_line_Inl])
qed

theorem read_charge_mapping_witness:
  "readable dec5
     [''  3  0     0  0  0  0  0  1 V2000'',
      ''   0.00000   0.00000   0.00000   N    3  0  0  0  0  0  0  0  0  0  0'',
      ''   1.50000   0.00000   0.00000   O    4  0  0  0  0  0  0  0  0  0  0'',
      ''   3.00000   0.00000   0.00000   C    9  0  0  0  0  0  0  0  0  0  0'',
      ''M  END'']
   \<and> read_structure_from_ctab dec5
     [''  3  0     0  0  0  0  0  1 V2000'',
      ''   0.00000   0.00000   0.00000   N    3  0  0  0  0  0  0  0  0  0  0'',
      ''   1.50000   0.00000   0.00000   O    4  0  0  0  0  0  0  0  0  0  0'',
      ''   3.00000   0.00000   0.00000   C    9  0  0  0  0  0  0  0  0  0  0'',
      ''M  END'']
   = Inr (\<lparr>coord = [(0, 0, 0), (150000, 0, 0), (300000, 0, 0)], element = [''N'', ''O'', ''C''],
            charge = Some [1, 0, 0], bonds = Some []\<rparr>, [ChargeWarning 4, ChargeWarning 9])
   \<and> (\<exists>code cs. py_int ''  9'' = Some code \<and> Some [1, 0, 0] = Some cs \<and> cs ! 2 = (0::int)
         \<and> ChargeWarning code \<in> set [ChargeWarning 4, ChargeWarning 9])"
proof -
  let ?lines = "[''  3  0     0  0  0  0  0  1 V2000'',
      ''   0.00000   0.00000   0.00000   N    3  0  0  0  0  0  0  0  0  0  0'',
      ''   1.50000   0.00000   0.00000   O    4  0  0  0  0  0  0  0  0  0  0'',
      ''   3.00000   0.00000   0.00000   C    9  0  0  0  0  0  0  0  0  0  0'',
      ''M  END'']"
  let ?atoms = "\<lparr>coord = [(0, 0, 0), (150000, 0, 0), (300000, 0, 0)],
            element = [''N'', ''O'', ''C''],
            charge = Some [1, 0, 0], bonds = Some []\<rparr> :: int AtomArray"
  let ?ws = "[ChargeWarning 4, ChargeWarning 9]"
  have c: "get_counts (hd ?lines) = Inr (3, 0)"
    by (simp add: get_counts_def str_eval)
  have s: "py_slice 1 (1 + 3) ?lines =
     [''   0.00000   0.00000   0.00000   N    3  0  0  0  0  0  0  0  0  0  0'',
      ''   1.50000   0.00000   0.00000   O    4  0  0  0  0  0  0  0  0  0  0'',
      ''   3.00000   0.00000   0.00000   C    9  0  0  0  0  0  0  0  0  0  0'']"
    by (simp add: py_slice_def)
  have rd: "readable dec5 ?lines"
    using c
    by (simp add: readable_def py_slice_def atom_fields_convert_def dec5_def dec5_parse_def
          BondList_def str_eval)
  note main = read_charge_mapping [of dec5 ?lines]
  from main rd have "\<exists>r. read_structure_from_ctab dec5 ?lines = Inr r" by blast
  have r: "read_structure_from_ctab dec5 ?lines = Inr (?atoms, ?ws)"
    using c
    by (simp add: read_structure_from_ctab_eq read_result_def py_slice_def Let_def
        read_atom_line_def dec5_def dec5_parse_def CHARGE_MAPPING_def str_eval
        atom_rows_result_def BondList_def)
  have i: "2 < length (py_slice 1 (1 + 3) ?lines)" unfolding s by simp
  have f: "slice_between 36 39 (py_slice 1 (1 + 3) ?lines ! 2) = ''  9''"
    unfolding s by (simp add: slice_between_def)
  from main have "read_structure_from_ctab dec5 ?lines = Inr (?atoms, ?ws)
          \<and> get_counts (hd ?lines) = Inr (3, 0)
          \<and> 2 < length (py_slice 1 (1 + 3) ?lines) \<longrightarrow>
          (\<exists>code cs.
              py_int (slice_between 36 39 (py_slice 1 (1 + 3) ?lines ! 2)) = Some code
            \<and> charge ?atoms = Some cs \<and> 2 < length cs
            \<and> cs ! 2 = (if code = 0 then 0 else if code = 1 then 3 else if code = 2 then 2
                        else if code = 3 then 1 else if code = 5 then -1
                        else if code = 6 then -2 else if code = 7 then -3 else 0)
            \<and> (ChargeWarning code \<in> set ?ws \<longleftrightarrow> code \<notin> {0, 1, 2, 3, 5, 6, 7}))"
    by blast
  with r c i obtain code cs where
    k: "py_int (slice_between 36 39 (py_slice 1 (1 + 3) ?lines ! 2)) = Some code"
       "charge ?atoms = Some cs"
       "cs ! 2 = (if code = 0 then 0 else if code = 1 then 3 else if code = 2 then 2
               else if code = 3 then 1 else if code = 5 then -1
               else if code = 6 then -2 else if code = 7 then -3 else 0)"
       "ChargeWarning code \<in> set ?ws \<longleftrightarrow> code \<notin> {0, 1, 2, 3, 5, 6, 7}"
    by blast
  have n: "py_int ''  9'' = Some 9" by (simp add: str_eval)
  have code: "code = 9" using k(1) n unfolding f by simp
  have "py_int ''  9'' = Some code \<and> Some [1, 0, 0] = Some cs \<and> cs ! 2 = (0::int)
         \<and> ChargeWarning code \<in> set ?ws"
    using k(2,3) n unfolding code by simp
  then have e: "\<exists>code cs. py_int ''  9'' = Some code \<and> Some [1, 0, 0] = Some cs
         \<and> cs ! 2 = (0::int) \<and> ChargeWarning code \<in> set ?ws"
    by blast
  from rd r e show ?thesis by (intro conjI)
qed

text \<open>
  Claim C5. For a stack the writer fails with \<open>TypeError\<close> (the spec's
  UnsupportedInputError), for an atom array without bond list with
  \<open>BadStructureError\<close> (the spec's MissingBondGraphError), and it fails in no other
  case; an atom array with an empty bond list is written as the counts line with bond
  count 0, the atom lines and the terminal line. The arrays of the atom array have equal
  length, as the class guarantees.
\<close>

theorem write_fails_iff:
  assumes "case arg of IsAtomArray atoms \<Rightarrow> valid_AtomArray atoms | IsAtomArrayStack _ \<Rightarrow> True"
  shows "(write_structure_to_ctab L arg = Inl TypeError \<longleftrightarrow> (\<exists>s. arg = IsAtomArrayStack s))
       \<and> (write_structure_to_ctab L arg = Inl BadStructureError
            \<longleftrightarrow> (\<exists>atoms. arg = IsAtomArray atoms \<and> bonds atoms = None))
       \<and> (\<forall>e. write_structure_to_ctab L arg = Inl e \<longrightarrow> e = TypeError \<or> e = BadStructureError)
       \<and> (\<forall>atoms. arg = IsAtomArray atoms \<and> bonds atoms = Some [] \<longrightarrow>
             write_structure_to_ctab L arg =
               Inr ([format_d 3 (int (array_length atoms)) @ ''  0''
                       @ ''     0  0  0  0  0  1 V2000'']
                    @ map (atom_line_text L atoms (charge_array atoms)) [0..<array_length atoms]
                    @ [''M  END'']))"
proof (cases arg)
  case (IsAtomArrayStack s)
  then show ?thesis by (simp add: write_structure_to_ctab_def)
next
  case (IsAtomArray atoms)
  then have v: "valid_AtomArray atoms" using assms by simp
  show ?thesis
  proof (cases "bonds atoms")
    case None
    then show ?thesis using IsAtomArray by (simp add: write_structure_to_ctab_def)
  next
    case (Some bl)
    have "format_d 3 0 = ''  0''" by (simp add: str_eval digits.simps eval_nat_numeral)
    then show ?thesis
      using IsAtomArray Some write_valid [OF v Some, of L] by (auto simp del: upt_Suc)
  qed
qed

theorem write_fails_iff_witness:
  "valid_AtomArray \<lparr>coord = [(0::int, 0, 0)], element = [''C''], charge = None,
                     bonds = Some []\<rparr>
   \<and> write_structure_to_ctab dec5
        (IsAtomArray \<lparr>coord = [(0, 0, 0)], element = [''C''], charge = None, bonds = Some []\<rparr>)
      = Inr [''  1  0     0  0  0  0  0  1 V2000'',
             ''   0.00000   0.00000   0.00000   C    0  0  0  0  0  0  0  0  0  0  0'',
             ''M  END'']"
proof -
  let ?a = "\<lparr>coord = [(0, 0, 0)], element = [''C''], charge = None, bonds = Some []\<rparr>
              :: int AtomArray"
  have v: "valid_AtomArray ?a" by (simp add: valid_AtomArray_def)
  then have h: "case IsAtomArray ?a of IsAtomArray atoms \<Rightarrow> valid_AtomArray atoms
                | IsAtomArrayStack _ \<Rightarrow> True"
    by simp
  have t: "atom_line_text dec5 ?a (charge_array ?a) 0
            = ''   0.00000   0.00000   0.00000   C    0  0  0  0  0  0  0  0  0  0  0''"
    by (simp add: atom_line_text_def charge_array_def array_length_def dec5_def
          dec5_format_def charge_rev_zero padding_fields format_d_3_0)
       (simp add: str_eval digits.simps eval_nat_numeral)
  have c: "format_d 3 (int (array_length ?a)) = ''  1''"
    by (simp add: array_length_def str_eval digits.simps eval_nat_numeral)
  have "write_structure_to_ctab dec5 (IsAtomArray ?a) =
               Inr ([format_d 3 (int (array_length ?a)) @ ''  0''
                       @ ''     0  0  0  0  0  1 V2000'']
                    @ map (atom_line_text dec5 ?a (charge_array ?a)) [0..<array_length ?a]
                    @ [''M  END''])"
    using write_fails_iff [OF h, of dec5] by simp
  also have "[0..<array_length ?a] = [0]" by (simp add: array_length_def)
  finally have w: "write_structure_to_ctab dec5 (IsAtomArray ?a)
      = Inr [''  1  0     0  0  0  0  0  1 V2000'',
             ''   0.00000   0.00000   0.00000   C    0  0  0  0  0  0  0  0  0  0  0'',
             ''M  END'']"
    unfolding c by (simp add: t)
  from v w show ?thesis by (rule conjI)
qed



end
